theory Spec2Isabelle
  imports Main "HOL-Library.Sublist"
begin

section \<open>Strings of the host language\<close>

text \<open>
  The content script works on JavaScript strings. They are modelled as \<open>string\<close>
  (lists of \<open>char\<close>), one \<open>char\<close> per code unit, which covers the code units
  \<open>0..255\<close> (Latin-1 text). On this range \<open>String.prototype.trim\<close> removes the
  characters TAB, LF, VT, FF, CR, SPACE and NBSP, and \<open>toLowerCase\<close> shifts
  \<open>A..Z\<close> and the upper-case letters \<open>0xC0..0xDE\<close> (without \<open>0xD7\<close>) by 32.
\<close>

definition DQUOTE :: char where "DQUOTE = CHR 0x22"
definition COMMA :: char where "COMMA = CHR 0x2C"
definition LF :: char where "LF = CHR 0x0A"
definition CR :: char where "CR = CHR 0x0D"

definition js_whitespace :: "char \<Rightarrow> bool" where
  "js_whitespace c \<longleftrightarrow>
     c \<in> set [CHR 0x09, CHR 0x0A, CHR 0x0B, CHR 0x0C, CHR 0x0D, CHR 0x20, CHR 0xA0]"

definition trim :: "string \<Rightarrow> string" where
  "trim s = rev (dropWhile js_whitespace (rev (dropWhile js_whitespace s)))"

definition lower_char :: "char \<Rightarrow> char" where
  "lower_char c =
     (let n = (of_char c :: nat)
      in if (0x41 \<le> n \<and> n \<le> 0x5A) \<or> (0xC0 \<le> n \<and> n \<le> 0xDE \<and> n \<noteq> 0xD7)
         then char_of (n + 0x20) else c)"

definition toLowerCase :: "string \<Rightarrow> string" where
  "toLowerCase s = map lower_char s"

definition startsWith :: "string \<Rightarrow> string \<Rightarrow> bool" where
  "startsWith s p = prefix p s"

definition includesStr :: "string \<Rightarrow> string \<Rightarrow> bool" where
  "includesStr s p = sublist p s"

text \<open>\<open>Array.prototype.findIndex\<close>; the result \<open>-1\<close> of the source is \<open>None\<close>.\<close>

fun findIndex :: "('a \<Rightarrow> bool) \<Rightarrow> 'a list \<Rightarrow> nat option" where
  "findIndex p [] = None"
| "findIndex p (x # xs) =
     (if p x then Some 0 else map_option Suc (findIndex p xs))"

section \<open>CSV reader\<close>

subsection \<open>Row tokenizer \<open>parseCsvRows\<close>\<close>

text \<open>
  \<open>pushRow\<close> is the block that ends a row: the trimmed current field is pushed on the
  current row, and the row is appended to \<open>rows\<close> if some field of it is non-empty.
\<close>

definition pushRow :: "string list list \<Rightarrow> string list \<Rightarrow> string \<Rightarrow> string list list" where
  "pushRow rows currentRow currentField =
     (let row = currentRow @ [trim currentField]
      in if \<exists>f \<in> set row. length f > 0 then rows @ [row] else rows)"

text \<open>
  The scan of \<open>parseCsvRows\<close>, on the text that is still to be read. The arguments after
  the text are the loop variables \<open>inQuotes\<close>, \<open>currentField\<close>, \<open>currentRow\<close> and
  \<open>rows\<close>; the lookahead \<open>csvText[i + 1]\<close> is the head of the rest, and \<open>i++\<close> inside the
  body skips it.
\<close>

fun scanCsv :: "string \<Rightarrow> bool \<Rightarrow> string \<Rightarrow> string list \<Rightarrow> string list list
    \<Rightarrow> string list list" where
  "scanCsv [] inQuotes currentField currentRow rows = pushRow rows currentRow currentField"
| "scanCsv (c # cs) True currentField currentRow rows =
     (if c = DQUOTE then
        (case cs of
           d # ds \<Rightarrow>
             if d = DQUOTE then scanCsv ds True (currentField @ [DQUOTE]) currentRow rows
             else scanCsv cs False currentField currentRow rows
         | [] \<Rightarrow> scanCsv cs False currentField currentRow rows)
      else scanCsv cs True (currentField @ [c]) currentRow rows)"
| "scanCsv (c # cs) False currentField currentRow rows =
     (if c = DQUOTE then scanCsv cs True currentField currentRow rows
      else if c = COMMA then scanCsv cs False [] (currentRow @ [trim currentField]) rows
      else if c = LF then scanCsv cs False [] [] (pushRow rows currentRow currentField)
      else
        (case cs of
           d # ds \<Rightarrow>
             if c = CR \<and> d = LF then scanCsv ds False [] [] (pushRow rows currentRow currentField)
             else scanCsv cs False (currentField @ [c]) currentRow rows
         | [] \<Rightarrow> scanCsv cs False (currentField @ [c]) currentRow rows))"

definition parseCsvRows :: "string \<Rightarrow> string list list" where
  "parseCsvRows csvText = scanCsv csvText False [] [] []"


text \<open>
  The CSV encoding of a table, used to state what the tokenizer reads back. A field is a
  pair of a flag and its content: with the flag set it is written between double quotes,
  every double quote of its content doubled; without the flag it is written as it is, which
  is allowed (\<open>wellWritten\<close>) when the content has no double quote, comma, LF or CR. The
  fields of a row are separated by commas and the rows by a line break \<open>nl\<close>, LF or CR LF.
\<close>

definition escapeQuotes :: "string \<Rightarrow> string" where
  "escapeQuotes s = concat (map (\<lambda>c. if c = DQUOTE then [DQUOTE, DQUOTE] else [c]) s)"

definition quoteField :: "string \<Rightarrow> string" where
  "quoteField s = DQUOTE # escapeQuotes s @ [DQUOTE]"

definition plainSafe :: "string \<Rightarrow> bool" where
  "plainSafe s \<longleftrightarrow> (\<forall>c \<in> set s. c \<noteq> DQUOTE \<and> c \<noteq> COMMA \<and> c \<noteq> LF \<and> c \<noteq> CR)"

definition writeField :: "bool \<times> string \<Rightarrow> string" where
  "writeField fld = (if fst fld then quoteField (snd fld) else snd fld)"

definition wellWritten :: "bool \<times> string \<Rightarrow> bool" where
  "wellWritten fld \<longleftrightarrow> fst fld \<or> plainSafe (snd fld)"

fun joinWith :: "'a list \<Rightarrow> 'a list list \<Rightarrow> 'a list" where
  "joinWith sep [] = []"
| "joinWith sep [x] = x"
| "joinWith sep (x # y # zs) = x @ sep @ joinWith sep (y # zs)"

definition encodeRow :: "(bool \<times> string) list \<Rightarrow> string" where
  "encodeRow flds = joinWith [COMMA] (map writeField flds)"

definition encodeCsv :: "string \<Rightarrow> (bool \<times> string) list list \<Rightarrow> string" where
  "encodeCsv nl table = joinWith nl (map encodeRow table)"

definition lineBreak :: "string \<Rightarrow> bool" where
  "lineBreak nl \<longleftrightarrow> nl = [LF] \<or> nl = [CR, LF]"

definition nonBlank :: "string list \<Rightarrow> bool" where
  "nonBlank row \<longleftrightarrow> (\<exists>f \<in> set row. length f > 0)"

definition fieldText :: "bool \<times> string \<Rightarrow> string" where
  "fieldText fld = trim (snd fld)"

definition notQuoteHead :: "string \<Rightarrow> bool" where
  "notQuoteHead rest \<longleftrightarrow> (case rest of [] \<Rightarrow> True | c # _ \<Rightarrow> c \<noteq> DQUOTE)"

subsection \<open>Column selection and identifier extraction \<open>parseCsv\<close>\<close>

datatype error =
    EmptyOrInvalidInput
  | MissingIdentifierColumn "string list"
  | NoClaimsFound
  | NoJobToResume
  | SearchFailed nat
  | ClaimNotFound string
  | ApiCallFailed nat string
  | NetworkError string

text \<open>
  The errors thrown by the content script, one constructor per \<open>throw\<close>:
  \<open>'CSV file is empty or invalid'\<close>, \<open>'Could not find claim/file number column ...'\<close>
  with the headers found, \<open>'No claims found in CSV'\<close>, \<open>'No export job found to resume'\<close>,
  \<open>'Search failed: <status>'\<close>, \<open>'Claim not found: <fileNumber>'\<close>,
  \<open>'API call failed: <status> <statusText>'\<close>, and the rejection of \<open>fetch\<close> or of
  \<open>response.json()\<close> by the host with its message.
\<close>

record claim =
  fileNumber :: string
  rowIndex :: nat

definition exactNames :: "string list" where
  "exactNames = [''file number'', ''file #'', ''file#'', ''filenumber'',
                 ''claim number'', ''claim #'', ''claim#'', ''claimnumber'']"

definition excludePatterns :: "string list" where
  "excludePatterns = [''profile'', ''filed'', ''filename'',
                      ''claim status'', ''claim type'', ''claim date'']"

definition tier1 :: "string \<Rightarrow> bool" where
  "tier1 h \<longleftrightarrow> trim (toLowerCase h) \<in> set exactNames"

definition tier2 :: "string \<Rightarrow> bool" where
  "tier2 h \<longleftrightarrow>
     (let lower = trim (toLowerCase h)
      in (startsWith lower ''file'' \<or> startsWith lower ''claim'') \<and>
         (includesStr lower ''number'' \<or> includesStr lower ''#'' \<or> includesStr lower ''no''))"

definition tier3 :: "string \<Rightarrow> bool" where
  "tier3 h \<longleftrightarrow>
     (let lower = trim (toLowerCase h)
      in if \<exists>ex \<in> set excludePatterns. includesStr lower ex then False
         else includesStr lower ''file'' \<or> includesStr lower ''claim'')"

definition selectColumn :: "string list \<Rightarrow> nat option" where
  "selectColumn headers =
     (case findIndex tier1 headers of
        Some i \<Rightarrow> Some i
      | None \<Rightarrow>
          (case findIndex tier2 headers of
             Some i \<Rightarrow> Some i
           | None \<Rightarrow> findIndex tier3 headers))"

text \<open>
  The loop over the data rows: \<open>i\<close> is the index of the row \<open>values\<close> in \<open>rows\<close>, and the
  accumulators are \<open>seen\<close>, \<open>claims\<close> and the counter \<open>skippedBadRows\<close>. An empty string is
  falsy, so a row with an empty identifier is neither kept nor reported.
\<close>

fun collectClaims :: "nat \<Rightarrow> nat \<Rightarrow> string list list \<Rightarrow> string set \<Rightarrow> claim list \<Rightarrow> nat
    \<Rightarrow> claim list \<times> nat" where
  "collectClaims fileNumberIndex i [] seen claims skippedBadRows = (claims, skippedBadRows)"
| "collectClaims fileNumberIndex i (values # rest) seen claims skippedBadRows =
     (if length values < fileNumberIndex + 1
      then collectClaims fileNumberIndex (i + 1) rest seen claims (skippedBadRows + 1)
      else
        (let fileNumber = values ! fileNumberIndex
         in if fileNumber \<noteq> [] \<and> fileNumber \<notin> seen
            then collectClaims fileNumberIndex (i + 1) rest (insert fileNumber seen)
                   (claims @ [\<lparr>fileNumber = fileNumber, rowIndex = i\<rparr>]) skippedBadRows
            else collectClaims fileNumberIndex (i + 1) rest seen claims skippedBadRows))"

definition claimsOfRows :: "string list list \<Rightarrow> error + claim list" where
  "claimsOfRows rows =
     (case rows of
        [] \<Rightarrow> Inl EmptyOrInvalidInput
      | [headers] \<Rightarrow> Inl EmptyOrInvalidInput
      | headers # dataRows \<Rightarrow>
          (case selectColumn headers of
             None \<Rightarrow> Inl (MissingIdentifierColumn headers)
           | Some fileNumberIndex \<Rightarrow>
               Inr (fst (collectClaims fileNumberIndex 1 dataRows {} [] 0))))"

definition parseCsv :: "string \<Rightarrow> error + claim list" where
  "parseCsv csvText = claimsOfRows (parseCsvRows csvText)"

text \<open>
  Notions used to state what \<open>parseCsv\<close> returns: the values found at a column in the rows
  that have this column, the first occurrences of a list in their order, and the headers
  that no tier of the column selection accepts.
\<close>

definition columnValues :: "nat \<Rightarrow> string list list \<Rightarrow> string list" where
  "columnValues idx dataRows = map (\<lambda>values. values ! idx) (filter (\<lambda>values. idx < length values) dataRows)"

fun firstSeen :: "'a list \<Rightarrow> 'a list" where
  "firstSeen [] = []"
| "firstSeen (x # xs) = x # filter (\<lambda>y. y \<noteq> x) (firstSeen xs)"

definition matchesNoTier :: "string \<Rightarrow> bool" where
  "matchesNoTier h \<longleftrightarrow> \<not> tier1 h \<and> \<not> tier2 h \<and> \<not> tier3 h"

definition firstMatch :: "('a \<Rightarrow> bool) \<Rightarrow> 'a list \<Rightarrow> nat \<Rightarrow> bool" where
  "firstMatch p xs i \<longleftrightarrow> i < length xs \<and> p (xs ! i) \<and> (\<forall>j < i. \<not> p (xs ! j))"

section \<open>Claim fetcher\<close>

subsection \<open>Recursive file listing \<open>fetchAllFiles\<close>\<close>

text \<open>
  An entry of a file listing, with the fields the content script reads. A missing or empty
  \<open>key\<close> or \<open>filename\<close> is the empty string (both are falsy in the source); the
  payload fields are opaque values of type \<open>'j\<close>.
\<close>

record 'j fileItem =
  folder :: bool
  hasChildren :: bool
  key :: string
  filename :: string
  title :: 'j
  fileSize :: 'j
  fileDate :: 'j
  description :: 'j

text \<open>
  What \<open>fetchApi\<close> gives for a listing request: it throws (\<open>ListingFailed\<close>), or it
  returns a value that is not an array, or it returns an array of entries.
\<close>

datatype 'j listing = ListingFailed error | NotAnArray | Items "'j fileItem list"

text \<open>
  The remote service for listings: it answers a request for a claim and a folder (\<open>None\<close>
  for the root, path \<open>tree\<close>; \<open>Some k\<close> for \<open>tree/k\<close>) from its current state \<open>'w\<close> and
  moves to a new state, so the answers may change between calls and may describe a cyclic
  folder structure.
\<close>

type_synonym ('w, 'j) filesApi = "'w \<Rightarrow> string \<Rightarrow> string option \<Rightarrow> 'j listing \<times> 'w"

definition maxDepth :: nat where "maxDepth = 5"

definition descends :: "'j fileItem \<Rightarrow> bool" where
  "descends item \<longleftrightarrow> folder item \<and> hasChildren item \<and> key item \<noteq> [] \<and> key item \<noteq> ''ATTACHMENTS''"

definition collects :: "'j fileItem \<Rightarrow> bool" where
  "collects item \<longleftrightarrow> \<not> folder item \<and> filename item \<noteq> []"

function fetchAllFiles :: "('w, 'j) filesApi \<Rightarrow> string \<Rightarrow> string option \<Rightarrow> nat \<Rightarrow> 'w
    \<Rightarrow> 'j fileItem list \<times> 'w" where
  "fetchAllFiles api claimId folderKey depth w =
     (if depth > maxDepth then ([], w)
      else
        (case api w claimId folderKey of
           (ListingFailed e, w1) \<Rightarrow> ([], w1)
         | (NotAnArray, w1) \<Rightarrow> ([], w1)
         | (Items filesResponse, w1) \<Rightarrow>
             fold (\<lambda>item acc.
                     if descends item then
                       (let r = fetchAllFiles api claimId (Some (key item)) (depth + 1) (snd acc)
                        in (fst acc @ fst r, snd r))
                     else if collects item then (fst acc @ [item], snd acc)
                     else acc)
                  filesResponse ([], w1)))"
  by pat_completeness auto
termination
  by (relation "measure (\<lambda>(api, claimId, folderKey, depth, w). Suc maxDepth - depth)") auto

text \<open>The body of the loop over one listing, at the depth of the recursive calls.\<close>

definition visitItem :: "('w, 'j) filesApi \<Rightarrow> string \<Rightarrow> nat \<Rightarrow> 'j fileItem
    \<Rightarrow> 'j fileItem list \<times> 'w \<Rightarrow> 'j fileItem list \<times> 'w" where
  "visitItem api claimId depth item acc =
     (if descends item then
        (let r = fetchAllFiles api claimId (Some (key item)) depth (snd acc)
         in (fst acc @ fst r, snd r))
      else if collects item then (fst acc @ [item], snd acc)
      else acc)"

text \<open>
  A remote that counts the requests it answers, to observe the calls of the walk, and the
  largest number of requests a walk can make when no listing has more than \<open>b\<close> entries
  to descend into.
\<close>

definition counting :: "('w, 'j) filesApi \<Rightarrow> ('w \<times> nat, 'j) filesApi" where
  "counting api = (\<lambda>(w, n) claimId folderKey.
     (fst (api w claimId folderKey), (snd (api w claimId folderKey), Suc n)))"

fun callBound :: "nat \<Rightarrow> nat \<Rightarrow> nat" where
  "callBound b 0 = 1"
| "callBound b (Suc levels) = 1 + b * callBound b levels"

definition branching :: "('w, 'j) filesApi \<Rightarrow> nat \<Rightarrow> bool" where
  "branching api b \<longleftrightarrow>
     (\<forall>w claimId folderKey. case fst (api w claimId folderKey) of
         Items filesResponse \<Rightarrow> length (filter descends filesResponse) \<le> b
       | _ \<Rightarrow> True)"

definition callsFrom :: "nat \<Rightarrow> nat \<Rightarrow> nat" where
  "callsFrom b depth = (if depth > maxDepth then 0 else callBound b (maxDepth - depth))"

definition requests :: "'a \<times> 'w \<times> nat \<Rightarrow> nat" where
  "requests r = snd (snd r)"

text \<open>
  A cyclic folder structure, for the examples: every listing, of the root and of every
  folder, holds the folder \<open>A\<close> again and one file.
\<close>

definition folderA :: "unit fileItem" where
  "folderA = \<lparr>folder = True, hasChildren = True, key = ''A'', filename = [],
     title = (), fileSize = (), fileDate = (), description = ()\<rparr>"

definition fileB :: "unit fileItem" where
  "fileB = \<lparr>folder = False, hasChildren = False, key = ''B'', filename = ''b.pdf'',
     title = (), fileSize = (), fileDate = (), description = ()\<rparr>"

definition cyclicRemote :: "(unit, unit) filesApi" where
  "cyclicRemote = (\<lambda>w claimId folderKey. (Items [folderA, fileB], w))"

subsection \<open>One claim: \<open>fetchClaimDetails\<close>\<close>

text \<open>
  The answers of the remote service are typed by what the content script reads in them;
  payloads that are passed through unread have the type \<open>'j\<close>. A string field that is
  missing is the empty string, which is falsy as the missing field is.
\<close>

record 'j claimInfo =
  infoId :: string
  infoUuid :: string
  info :: 'j

text \<open>
  The search call: \<open>fetch\<close> rejects, or the response is not OK (with its status), or
  \<open>response.json()\<close> rejects, or the body is read; \<open>SearchBody None\<close> is a body that is
  falsy or has no \<open>Claims\<close>, \<open>SearchBody (Some cs)\<close> a body with the array \<open>Claims = cs\<close>.
\<close>

datatype 'j searchResponse =
    SearchRejected string
  | SearchNotOk nat
  | SearchBodyInvalid string
  | SearchBody "'j claimInfo list option"

record 'j rawContact =
  rawId :: 'j
  rawUuid :: string
  rawUniqueID :: string
  rawFirstName :: string
  rawLastName :: string
  rawNameFirstName :: string
  rawNameLastName :: string
  rawEmail :: string
  rawPreferredPhone :: string
  rawPhone :: string
  rawAddress :: 'j
  rawPhysicalAddress :: 'j

record 'j propcontacts =
  primaryContact :: "'j rawContact option"
  secondaryContacts :: "'j rawContact list option"

record 'j fullDetails =
  document :: 'j
  detailContacts :: "'j propcontacts option"
  detailPersonnel :: "'j option"
  detailPhases :: "'j option"

record 'j contact =
  contactId :: 'j
  uuid :: string
  firstName :: string
  lastName :: string
  email :: string
  phone :: string
  address :: 'j
  isPrimary :: bool

record 'j ledgerResponse =
  ledgerOf :: 'j
  notesOf :: "'j list"
  invoicesOf :: "'j list"

record 'j fileEntry =
  entryTitle :: 'j
  entryFilename :: string
  entryKey :: string
  entryFolder :: bool
  entrySize :: 'j
  entryFileDate :: 'j
  entryDescription :: 'j
  downloadUrl :: string

text \<open>
  The remote service during the fetch of one claim. \<open>fetchApi\<close> throws when \<open>fetch\<close>
  rejects, when the response is not OK or when its body is not JSON: the result is
  \<open>Inl\<close> of the error then, and otherwise \<open>Inr\<close> of what the caller reads in the value
  (\<open>None\<close> when the value is falsy or not of the shape the caller tests for).
\<close>

record 'j remote =
  search :: "string \<Rightarrow> 'j searchResponse"
  claimApi :: "string \<Rightarrow> error + 'j fullDetails option"
  insuranceApi :: "string \<Rightarrow> error + 'j option"
  mortgagesApi :: "string \<Rightarrow> error + 'j list option"
  externalApi :: "string \<Rightarrow> error + 'j list option"
  actionsApi :: "string \<Rightarrow> error + 'j list option"
  ledgerApi :: "string \<Rightarrow> error + 'j ledgerResponse option"
  filesApi :: "string \<Rightarrow> string option \<Rightarrow> 'j listing"
  notesApi :: "string \<Rightarrow> error + 'j list option"
  activityApi :: "string \<Rightarrow> error + 'j list option"

record 'j claimResult =
  resultFileNumber :: string
  claimId :: string
  claimUuid :: string
  claimDetails :: 'j
  fullClaimData :: "'j option"
  contacts :: "'j contact list option"
  personnel :: "'j option"
  phases :: "'j option"
  insurance :: "'j option"
  mortgages :: "'j list option"
  externalPersonnel :: "'j list option"
  actionItems :: "'j list option"
  ledger :: "'j option"
  ledgerNotes :: "'j list option"
  ledgerInvoices :: "'j list option"
  files :: "'j fileEntry list option"
  claimNotes :: "'j list option"
  activity :: "'j list option"

text \<open>\<open>a || b\<close> on strings: the first one that is not empty.\<close>

definition orElse :: "string \<Rightarrow> string \<Rightarrow> string" where
  "orElse a b = (if a \<noteq> [] then a else b)"

definition primaryOf :: "'j rawContact \<Rightarrow> 'j contact" where
  "primaryOf primary =
     \<lparr>contactId = rawId primary, uuid = rawUuid primary,
      firstName = orElse (rawFirstName primary) [], lastName = orElse (rawLastName primary) [],
      email = orElse (rawEmail primary) [],
      phone = orElse (rawPreferredPhone primary) (orElse (rawPhone primary) []),
      address = rawAddress primary, isPrimary = True\<rparr>"

definition secondaryOf :: "'j rawContact \<Rightarrow> 'j contact" where
  "secondaryOf contact =
     \<lparr>contactId = rawId contact, uuid = orElse (rawUuid contact) (rawUniqueID contact),
      firstName = orElse (rawFirstName contact) (orElse (rawNameFirstName contact) []),
      lastName = orElse (rawLastName contact) (orElse (rawNameLastName contact) []),
      email = orElse (rawEmail contact) [],
      phone = orElse (rawPreferredPhone contact) [],
      address = rawPhysicalAddress contact, isPrimary = False\<rparr>"

definition contactsOf :: "'j propcontacts \<Rightarrow> 'j contact list" where
  "contactsOf pc =
     (case primaryContact pc of None \<Rightarrow> [] | Some primary \<Rightarrow> [primaryOf primary])
     @ (case secondaryContacts pc of None \<Rightarrow> [] | Some cc \<Rightarrow> map secondaryOf cc)"

text \<open>Step 2: what the full claim document adds to the result, when it is truthy.\<close>

definition withDetails :: "'j fullDetails option \<Rightarrow> 'j claimResult \<Rightarrow> 'j claimResult" where
  "withDetails fullDetails claimResult =
     (case fullDetails of
        None \<Rightarrow> claimResult
      | Some fd \<Rightarrow>
          claimResult
            \<lparr>fullClaimData := Some (document fd),
             contacts := map_option contactsOf (detailContacts fd),
             personnel := detailPersonnel fd,
             phases := detailPhases fd\<rparr>)"

text \<open>
  Step 3: the value of a settled promise of \<open>Promise.allSettled\<close> that the merge accepts:
  none when the promise is rejected, or when the value has not the expected shape.
\<close>

definition settled :: "error + 'a option \<Rightarrow> 'a option" where
  "settled p = (case p of Inl e \<Rightarrow> None | Inr v \<Rightarrow> v)"

definition toFileEntry :: "string \<Rightarrow> 'j fileItem \<Rightarrow> 'j fileEntry" where
  "toFileEntry cuuid file =
     \<lparr>entryTitle = title file, entryFilename = filename file, entryKey = key file,
      entryFolder = False, entrySize = fileSize file, entryFileDate = fileDate file,
      entryDescription = description file,
      downloadUrl = ''https://app.claimwizard.com/api/claim/'' @ cuuid @ ''/file/''
                    @ key file @ ''/?_vw=inline''\<rparr>"

definition filesOf :: "'j remote \<Rightarrow> string \<Rightarrow> 'j fileItem list" where
  "filesOf r cid = fst (fetchAllFiles (\<lambda>w c k. (filesApi r c k, w)) cid None 0 ())"

definition fanOut :: "'j remote \<Rightarrow> 'j claimResult \<Rightarrow> 'j claimResult" where
  "fanOut r claimResult =
     (let cid = claimId claimResult; cuuid = claimUuid claimResult;
          ledgerResult = settled (ledgerApi r cid);
          filesResult = filesOf r cid
      in claimResult
           \<lparr>insurance := settled (insuranceApi r cid),
            mortgages := settled (mortgagesApi r cid),
            externalPersonnel := settled (externalApi r cid),
            actionItems := settled (actionsApi r cuuid),
            ledger := map_option ledgerOf ledgerResult,
            ledgerNotes := map_option notesOf ledgerResult,
            ledgerInvoices := map_option invoicesOf ledgerResult,
            files := (if length filesResult > 0 then Some (map (toFileEntry cuuid) filesResult)
                      else None),
            claimNotes := settled (notesApi r cid),
            activity := settled (activityApi r cuuid)\<rparr>)"

definition initialResult :: "string \<Rightarrow> 'j claimInfo \<Rightarrow> 'j claimResult" where
  "initialResult fn claimInfo =
     \<lparr>resultFileNumber = fn, claimId = infoId claimInfo, claimUuid = infoUuid claimInfo,
      claimDetails = info claimInfo, fullClaimData = None, contacts = None, personnel = None,
      phases = None, insurance = None, mortgages = None, externalPersonnel = None,
      actionItems = None, ledger = None, ledgerNotes = None, ledgerInvoices = None,
      files = None, claimNotes = None, activity = None\<rparr>"

definition fetchClaimDetails :: "'j remote \<Rightarrow> claim \<Rightarrow> error + 'j claimResult" where
  "fetchClaimDetails r claim =
     (case search r (fileNumber claim) of
        SearchRejected m \<Rightarrow> Inl (NetworkError m)
      | SearchNotOk st \<Rightarrow> Inl (SearchFailed st)
      | SearchBodyInvalid m \<Rightarrow> Inl (NetworkError m)
      | SearchBody None \<Rightarrow> Inl (ClaimNotFound (fileNumber claim))
      | SearchBody (Some []) \<Rightarrow> Inl (ClaimNotFound (fileNumber claim))
      | SearchBody (Some (claimInfo # _)) \<Rightarrow>
          (case claimApi r (infoUuid claimInfo) of
             Inl e \<Rightarrow> Inl e
           | Inr fullDetails \<Rightarrow>
               Inr (fanOut r (withDetails fullDetails (initialResult (fileNumber claim) claimInfo)))))"

text \<open>
  What the export keeps for one claim: the result of the fetch, or, from the \<open>catch\<close> of
  the driver loop, the fields of the claim with the error.
\<close>

datatype 'j claimData = Fetched "'j claimResult" | FetchError claim error

definition catchFetch :: "claim \<Rightarrow> error + 'j claimResult \<Rightarrow> 'j claimData" where
  "catchFetch claim outcome = (case outcome of Inr v \<Rightarrow> Fetched v | Inl e \<Rightarrow> FetchError claim e)"

text \<open>
  Remote services for the examples. \<open>quietRemote\<close> answers every call with an OK response
  that holds nothing the content script reads; the others differ from it in one answer.
\<close>

definition quietRemote :: "unit remote" where
  "quietRemote =
     \<lparr>search = (\<lambda>criteria. SearchBody (Some [])),
      claimApi = (\<lambda>u. Inr None),
      insuranceApi = (\<lambda>i. Inr None),
      mortgagesApi = (\<lambda>i. Inr None),
      externalApi = (\<lambda>i. Inr None),
      actionsApi = (\<lambda>u. Inr None),
      ledgerApi = (\<lambda>i. Inr None),
      filesApi = (\<lambda>i k. Items []),
      notesApi = (\<lambda>i. Inr None),
      activityApi = (\<lambda>u. Inr None)\<rparr>"

definition claim7 :: "unit claimInfo" where
  "claim7 = \<lparr>infoId = ''7'', infoUuid = ''u-7'', info = ()\<rparr>"

definition foundRemote :: "unit remote" where
  "foundRemote = quietRemote\<lparr>search := (\<lambda>criteria. SearchBody (Some [claim7]))\<rparr>"

definition downRemote :: "unit remote" where
  "downRemote = quietRemote\<lparr>search := (\<lambda>criteria. SearchNotOk 500)\<rparr>"

definition detailDownRemote :: "unit remote" where
  "detailDownRemote = foundRemote\<lparr>claimApi := (\<lambda>u. Inl (ApiCallFailed 503 ''Service Unavailable''))\<rparr>"

definition partialRemote :: "unit remote" where
  "partialRemote = foundRemote
     \<lparr>insuranceApi := (\<lambda>i. Inl (ApiCallFailed 500 ''Internal Server Error'')),
      mortgagesApi := (\<lambda>i. Inr (Some [()])),
      filesApi := (\<lambda>i k. ListingFailed (NetworkError ''Failed to fetch'')),
      notesApi := (\<lambda>i. Inl (NetworkError ''Failed to fetch''))\<rparr>"

definition rejectedRemote :: "unit remote" where
  "rejectedRemote = quietRemote\<lparr>search := (\<lambda>criteria. SearchRejected ''Failed to fetch'')\<rparr>"

definition garbledRemote :: "unit remote" where
  "garbledRemote = quietRemote\<lparr>search := (\<lambda>criteria. SearchBodyInvalid ''Unexpected token'')\<rparr>"

definition noBodyRemote :: "unit remote" where
  "noBodyRemote = quietRemote\<lparr>search := (\<lambda>criteria. SearchBody None)\<rparr>"

definition claimF1 :: claim where
  "claimF1 = \<lparr>fileNumber = ''F-1'', rowIndex = 1\<rparr>"

section \<open>Export driver and job ledger\<close>

text \<open>
  The keys of \<open>chrome.storage.local\<close> that the export uses: the job ledger \<open>exportJob\<close>,
  the per-claim keys \<open>exportedClaim_i\<close> (a map from \<open>i\<close>), the progress, the completion
  mark and the error. A key that is removed or set to \<open>null\<close> is \<open>None\<close>; the mark
  \<open>exportComplete\<close> is false as long as it is absent.
\<close>

record exportJob =
  fileNumbers :: "string list"
  total :: nat
  completedCount :: nat
  testMode :: bool
  startedAt :: nat

datatype progressStatus = Starting | Resuming | Processing string | Complete

record exportProgress =
  current :: nat
  progressTotal :: nat
  status :: progressStatus
  timestamp :: nat

record 'j storage =
  exportJob :: "exportJob option"
  exportedClaim :: "nat \<rightharpoonup> 'j claimData"
  exportProgress :: "exportProgress option"
  exportComplete :: bool
  exportError :: "error option"

definition saveProgress :: "nat \<Rightarrow> nat \<Rightarrow> progressStatus \<Rightarrow> nat \<Rightarrow> 'j storage \<Rightarrow> 'j storage" where
  "saveProgress cur tot st now s =
     s\<lparr>exportProgress := Some \<lparr>current = cur, progressTotal = tot, status = st, timestamp = now\<rparr>\<rparr>"

definition saveClaimToStorage :: "nat \<Rightarrow> 'j claimData \<Rightarrow> 'j storage \<Rightarrow> 'j storage" where
  "saveClaimToStorage index claimData s = s\<lparr>exportedClaim := (exportedClaim s)(index \<mapsto> claimData)\<rparr>"

text \<open>
  The update of the ledger after a claim is saved: the job is read, and if there is one,
  its \<open>completedCount\<close> is set and the job written back.
\<close>

definition updateCompletedCount :: "nat \<Rightarrow> 'j storage \<Rightarrow> 'j storage" where
  "updateCompletedCount n s =
     (case exportJob s of
        None \<Rightarrow> s
      | Some job \<Rightarrow> s\<lparr>exportJob := Some (job\<lparr>completedCount := n\<rparr>)\<rparr>)"

text \<open>The writes after the loop: the last progress, then its removal and the mark.\<close>

definition markComplete :: "nat \<Rightarrow> nat \<Rightarrow> 'j storage \<Rightarrow> 'j storage" where
  "markComplete tot now s =
     (saveProgress tot tot Complete now s)\<lparr>exportProgress := None, exportComplete := True\<rparr>"

text \<open>The \<open>catch\<close> of \<open>processCsvAndFetchData\<close> and of \<open>resumeExport\<close>.\<close>

definition recordError :: "error \<Rightarrow> 'j storage \<Rightarrow> 'j storage" where
  "recordError e s = s\<lparr>exportError := Some e, exportProgress := None\<rparr>"

text \<open>
  The driver between two suspension points. \<open>Idle\<close>: no loop is running (nothing was
  started, the page was closed, or the loop has ended). \<open>AtFetch i\<close>: the loop is at the
  head of iteration \<open>i\<close>. \<open>AtSave i claimData\<close>: the fetch of iteration \<open>i\<close> has settled and
  the record is to be written. \<open>AtCount i\<close>: the record \<open>i\<close> is written and the ledger update
  is issued but not yet applied. \<open>AtLastCount i\<close>: the same after the last iteration, where
  the writes that follow the loop are issued before the callback of the ledger update
  runs. The driver also holds the list \<open>claimsToProcess\<close>; \<open>fetchLog\<close> records every call of
  \<open>fetchClaimDetails\<close> with the index of its iteration.
\<close>

datatype 'j phase = Idle | AtFetch nat | AtSave nat "'j claimData" | AtCount nat | AtLastCount nat

record 'j driver =
  store :: "'j storage"
  claimsToProcess :: "claim list"
  phase :: "'j phase"
  fetchLog :: "(nat \<times> claim) list"

text \<open>
  The environment of a run: \<open>fetchAt i claim\<close> is what \<open>fetchClaimDetails claim\<close> gives
  when iteration \<open>i\<close> calls it, and \<open>timeAt i\<close> what \<open>Date.now()\<close> gives in iteration \<open>i\<close>.
\<close>

type_synonym 'j fetcher = "nat \<Rightarrow> claim \<Rightarrow> error + 'j claimResult"

text \<open>The entry of \<open>processClaimsList\<close>, up to the first iteration.\<close>

definition enterLoop :: "claim list \<Rightarrow> nat \<Rightarrow> nat \<Rightarrow> 'j driver \<Rightarrow> 'j driver" where
  "enterLoop cl startFrom now d =
     d\<lparr>store := saveProgress startFrom (length cl) (if startFrom > 0 then Resuming else Starting)
                  now (store d),
       claimsToProcess := cl,
       phase := AtFetch startFrom\<rparr>"

text \<open>One step of \<open>processClaimsList\<close>, from one suspension point to the next.\<close>

definition driverStep :: "'j fetcher \<Rightarrow> (nat \<Rightarrow> nat) \<Rightarrow> 'j driver \<Rightarrow> 'j driver" where
  "driverStep fetchAt timeAt d =
     (let cl = claimsToProcess d; tot = length cl
      in case phase d of
           Idle \<Rightarrow> d
         | AtFetch i \<Rightarrow>
             if i < tot then
               d\<lparr>store := saveProgress (i + 1) tot (Processing (fileNumber (cl ! i))) (timeAt i)
                            (store d),
                 phase := AtSave i (catchFetch (cl ! i) (fetchAt i (cl ! i))),
                 fetchLog := fetchLog d @ [(i, cl ! i)]\<rparr>
             else d\<lparr>store := markComplete tot (timeAt i) (store d), phase := Idle\<rparr>
         | AtSave i claimData \<Rightarrow>
             d\<lparr>store := saveClaimToStorage i claimData (store d), phase := AtCount i\<rparr>
         | AtCount i \<Rightarrow>
             if i < tot - 1 then
               d\<lparr>store := updateCompletedCount (i + 1) (store d), phase := AtFetch (i + 1)\<rparr>
             else d\<lparr>store := markComplete tot (timeAt (i + 1)) (store d), phase := AtLastCount i\<rparr>
         | AtLastCount i \<Rightarrow>
             d\<lparr>store := updateCompletedCount (i + 1) (store d), phase := Idle\<rparr>)"

definition stepsLeft :: "'j driver \<Rightarrow> nat" where
  "stepsLeft d =
     (case phase d of
        Idle \<Rightarrow> 0
      | AtFetch i \<Rightarrow> 4 * (length (claimsToProcess d) - i) + 7
      | AtSave i claimData \<Rightarrow> 4 * (length (claimsToProcess d) - i) + 6
      | AtCount i \<Rightarrow> 4 * (length (claimsToProcess d) - i) + 5
      | AtLastCount i \<Rightarrow> 1)"

text \<open>The loop run to its end, when the page stays open.\<close>

function runDriver :: "'j fetcher \<Rightarrow> (nat \<Rightarrow> nat) \<Rightarrow> 'j driver \<Rightarrow> 'j driver" where
  "runDriver fetchAt timeAt d =
     (if phase d = Idle then d else runDriver fetchAt timeAt (driverStep fetchAt timeAt d))"
  by pat_completeness auto
termination
proof (relation "measure (\<lambda>(fetchAt, timeAt, d). stepsLeft d)")
  show "wf (measure (\<lambda>(fetchAt, timeAt, d). stepsLeft d))" by simp
next
  fix fetchAt :: "'j fetcher" and timeAt :: "nat \<Rightarrow> nat" and d :: "'j driver"
  assume "phase d \<noteq> Idle"
  then have "stepsLeft (driverStep fetchAt timeAt d) < stepsLeft d"
    by (cases "phase d") (auto simp: driverStep_def stepsLeft_def Let_def)
  then show "((fetchAt, timeAt, driverStep fetchAt timeAt d), (fetchAt, timeAt, d))
               \<in> measure (\<lambda>(fetchAt, timeAt, d). stepsLeft d)"
    by simp
qed

text \<open>
  The handler of the message \<open>processCsv\<close>: the marks of a previous export are removed,
  then \<open>processCsvAndFetchData\<close> parses the text, writes the job and enters the loop; an
  error of the parse, or an empty list of claims, is recorded and nothing else is done.
\<close>

definition clearMarks :: "'j storage \<Rightarrow> 'j storage" where
  "clearMarks s = s\<lparr>exportComplete := False, exportProgress := None, exportError := None\<rparr>"

definition processCsvAndFetchData :: "string \<Rightarrow> bool \<Rightarrow> nat \<Rightarrow> 'j storage \<Rightarrow> 'j driver" where
  "processCsvAndFetchData csvText isTest now s =
     (let idle = \<lparr>store = s, claimsToProcess = [], phase = Idle, fetchLog = []\<rparr>
      in case parseCsv csvText of
           Inl e \<Rightarrow> idle\<lparr>store := recordError e s\<rparr>
         | Inr parsed \<Rightarrow>
             if length parsed = 0 then idle\<lparr>store := recordError NoClaimsFound s\<rparr>
             else
               (let cl = (if isTest then take 1 parsed else parsed)
                in enterLoop cl 0 now
                     (idle\<lparr>store := s\<lparr>exportJob := Some
                        \<lparr>fileNumbers = map fileNumber cl, total = length cl, completedCount = 0,
                         testMode = isTest, startedAt = now\<rparr>\<rparr>\<rparr>)))"

definition processCsv :: "string \<Rightarrow> bool \<Rightarrow> nat \<Rightarrow> 'j storage \<Rightarrow> 'j driver" where
  "processCsv csvText isTest now s = processCsvAndFetchData csvText isTest now (clearMarks s)"

text \<open>The claims rebuilt from the file numbers of the job, with their positions.\<close>

definition rebuildClaims :: "string list \<Rightarrow> claim list" where
  "rebuildClaims fns = map (\<lambda>(fn, i). \<lparr>fileNumber = fn, rowIndex = i\<rparr>) (zip fns [0..<length fns])"

definition resumeExport :: "nat \<Rightarrow> 'j driver \<Rightarrow> 'j driver" where
  "resumeExport now d =
     (case exportJob (store d) of
        None \<Rightarrow> d\<lparr>store := recordError NoJobToResume (store d), phase := Idle\<rparr>
      | Some job \<Rightarrow> enterLoop (rebuildClaims (fileNumbers job)) (completedCount job) now d)"

text \<open>
  The page is closed: whatever the loop was waiting for is lost with it, the storage
  stays as it is.
\<close>

definition interrupt :: "'j driver \<Rightarrow> 'j driver" where
  "interrupt d = d\<lparr>claimsToProcess := [], phase := Idle\<rparr>"

text \<open>A storage without any key of the export, as after installation or \<open>startOver\<close>.\<close>

definition cleanStorage :: "'j storage" where
  "cleanStorage = \<lparr>exportJob = None, exportedClaim = Map.empty, exportProgress = None,
     exportComplete = False, exportError = None\<rparr>"


definition storedKeys :: "'j driver \<Rightarrow> nat set" where
  "storedKeys d = dom (exportedClaim (store d))"

text \<open>
  Notions for the statements about a run of the loop from index \<open>k\<close> over the claims
  \<open>cl\<close>, started in the driver state \<open>d0\<close>: what iteration \<open>i\<close> stores, how far a phase
  has written and logged, and what the ledger holds.
\<close>

definition expected :: "'j fetcher \<Rightarrow> claim list \<Rightarrow> nat \<Rightarrow> 'j claimData" where
  "expected fetchAt cl i = catchFetch (cl ! i) (fetchAt i (cl ! i))"

definition phaseIndex :: "'j phase \<Rightarrow> nat" where
  "phaseIndex p = (case p of Idle \<Rightarrow> 0 | AtFetch i \<Rightarrow> i | AtSave i c \<Rightarrow> i | AtCount i \<Rightarrow> i
                   | AtLastCount i \<Rightarrow> i)"

definition writtenUpto :: "'j phase \<Rightarrow> nat" where
  "writtenUpto p = (case p of Idle \<Rightarrow> 0 | AtFetch i \<Rightarrow> i | AtSave i c \<Rightarrow> i | AtCount i \<Rightarrow> i + 1
                    | AtLastCount i \<Rightarrow> i + 1)"

definition loggedUpto :: "'j phase \<Rightarrow> nat" where
  "loggedUpto p = (case p of Idle \<Rightarrow> 0 | AtFetch i \<Rightarrow> i | AtSave i c \<Rightarrow> i + 1 | AtCount i \<Rightarrow> i + 1
                   | AtLastCount i \<Rightarrow> i + 1)"

definition countedJob :: "nat \<Rightarrow> nat \<Rightarrow> exportJob option \<Rightarrow> exportJob option" where
  "countedJob k i job0 = (if i = k then job0 else map_option (\<lambda>job. job\<lparr>completedCount := i\<rparr>) job0)"

definition phaseOk :: "'j fetcher \<Rightarrow> claim list \<Rightarrow> nat \<Rightarrow> 'j driver \<Rightarrow> bool" where
  "phaseOk fetchAt cl k d =
     (case phase d of
        Idle \<Rightarrow> False
      | AtFetch i \<Rightarrow> i = k \<or> (k < i \<and> i < length cl)
      | AtSave i c \<Rightarrow> k \<le> i \<and> i < length cl \<and> c = expected fetchAt cl i
      | AtCount i \<Rightarrow> k \<le> i \<and> i < length cl
      | AtLastCount i \<Rightarrow> k \<le> i \<and> i + 1 = length cl \<and> exportComplete (store d)
                          \<and> exportProgress (store d) = None)"

definition runInv :: "'j fetcher \<Rightarrow> claim list \<Rightarrow> nat \<Rightarrow> 'j driver \<Rightarrow> 'j driver \<Rightarrow> bool" where
  "runInv fetchAt cl k d0 d \<longleftrightarrow>
     claimsToProcess d = cl \<and> phaseOk fetchAt cl k d
     \<and> (\<forall>j. k \<le> j \<and> j < writtenUpto (phase d) \<longrightarrow>
            exportedClaim (store d) j = Some (expected fetchAt cl j))
     \<and> (\<forall>j. j < k \<or> writtenUpto (phase d) \<le> j \<longrightarrow>
            exportedClaim (store d) j = exportedClaim (store d0) j)
     \<and> exportError (store d) = exportError (store d0)
     \<and> exportJob (store d) = countedJob k (phaseIndex (phase d)) (exportJob (store d0))
     \<and> fetchLog d = fetchLog d0 @ map (\<lambda>j. (j, cl ! j)) [k..<loggedUpto (phase d)]"

definition runFinal :: "'j fetcher \<Rightarrow> claim list \<Rightarrow> nat \<Rightarrow> 'j driver \<Rightarrow> 'j driver \<Rightarrow> bool" where
  "runFinal fetchAt cl k d0 d \<longleftrightarrow>
     phase d = Idle
     \<and> (\<forall>j. k \<le> j \<and> j < length cl \<longrightarrow> exportedClaim (store d) j = Some (expected fetchAt cl j))
     \<and> (\<forall>j. j < k \<or> length cl \<le> j \<longrightarrow> exportedClaim (store d) j = exportedClaim (store d0) j)
     \<and> exportError (store d) = exportError (store d0)
     \<and> exportComplete (store d) \<and> exportProgress (store d) = None
     \<and> exportJob (store d)
         = (if k < length cl then map_option (\<lambda>job. job\<lparr>completedCount := length cl\<rparr>) (exportJob (store d0))
            else exportJob (store d0))
     \<and> fetchLog d = fetchLog d0 @ map (\<lambda>j. (j, cl ! j)) [k..<length cl]"

text \<open>\<open>processClaimsList\<close> run to its end, and examples of exports for the witnesses.\<close>

definition processClaimsList :: "'j fetcher \<Rightarrow> (nat \<Rightarrow> nat) \<Rightarrow> claim list \<Rightarrow> nat \<Rightarrow> nat \<Rightarrow> 'j driver
    \<Rightarrow> 'j driver" where
  "processClaimsList fetchAt timeAt cl startFrom now d =
     runDriver fetchAt timeAt (enterLoop cl startFrom now d)"

definition csv3 :: string where
  "csv3 = ''Claim #'' @ [LF] @ ''A1'' @ [LF] @ ''B2'' @ [LF] @ ''A1'' @ [LF] @ ''C3''"

definition fetch3 :: "unit fetcher" where
  "fetch3 = (\<lambda>i claim. fetchClaimDetails (if i = 1 then downRemote else foundRemote) claim)"

definition clock3 :: "nat \<Rightarrow> nat" where
  "clock3 i = 100 + i"

definition found :: "string \<Rightarrow> unit claimData" where
  "found fn = Fetched (initialResult fn claim7)"

definition claims3 :: "claim list" where
  "claims3 = [\<lparr>fileNumber = ''A1'', rowIndex = 1\<rparr>, \<lparr>fileNumber = ''B2'', rowIndex = 2\<rparr>,
              \<lparr>fileNumber = ''C3'', rowIndex = 4\<rparr>]"

definition job3 :: exportJob where
  "job3 = \<lparr>fileNumbers = [''A1'', ''B2'', ''C3''], total = 3, completedCount = 0,
           testMode = False, startedAt = 99\<rparr>"

definition idle3 :: "unit driver" where
  "idle3 = \<lparr>store = cleanStorage\<lparr>exportJob := Some job3\<rparr>, claimsToProcess = [], phase = Idle,
            fetchLog = []\<rparr>"

definition foundAlways :: "unit fetcher" where
  "foundAlways = (\<lambda>i claim. fetchClaimDetails foundRemote claim)"

definition idle0 :: "unit driver" where
  "idle0 = \<lparr>store = cleanStorage, claimsToProcess = [], phase = Idle, fetchLog = []\<rparr>"

text \<open>
  An export of three claims that is interrupted when the second record is written and not
  yet counted.
\<close>

definition interrupted3 :: "unit driver" where
  "interrupted3 =
     interrupt (driverStep fetch3 clock3 (driverStep fetch3 clock3 (driverStep fetch3 clock3
       (driverStep fetch3 clock3 (driverStep fetch3 clock3
         (processCsv csv3 False 99 cleanStorage))))))"





section \<open>Assembler of the download\<close>

text \<open>
  \<open>downloadFromStorage\<close> of the popup reads the job, then the records of the indices below
  \<open>completedCount\<close> in batches of \<open>LOAD_BATCH_SIZE\<close> keys, writes each record present with
  \<open>JSON.stringify\<close> behind the opening text, and closes with the footer. \<open>JSON.stringify\<close>
  and the text of \<open>new Date().toISOString()\<close> are parameters, \<open>stringify\<close> and \<open>now\<close>. The
  numbers of the job are natural numbers, which a template literal writes in decimal digits
  (as JS does below \<open>10^21\<close>). The storage is the one the driver writes; it is not written
  while the popup assembles. The result is the text of the final Blob together with the log
  of the reads of per-claim keys (the indices of each \<open>chrome.storage.local.get\<close>), or
  \<open>None\<close> when the popup alerts \<open>No saved claims found.\<close> The name of the file and the click
  on the anchor are left out.
\<close>

definition LOAD_BATCH_SIZE :: nat where
  "LOAD_BATCH_SIZE = 100"

definition digitChar :: "nat \<Rightarrow> char" where
  "digitChar d = ''0123456789'' ! d"

fun decimal :: "nat \<Rightarrow> string" where
  "decimal n = (if n < 10 then [digitChar n] else decimal (n div 10) @ [digitChar (n mod 10)])"

definition quoted :: "string \<Rightarrow> string" where
  "quoted s = [DQUOTE] @ s @ [DQUOTE]"

definition getKeys :: "'j storage \<Rightarrow> nat list \<Rightarrow> (nat \<rightharpoonup> 'j claimData)" where
  "getKeys s keys = (\<lambda>i. if i \<in> set keys then exportedClaim s i else None)"

fun stringifyBatch :: "('j claimData \<Rightarrow> string) \<Rightarrow> (nat \<rightharpoonup> 'j claimData) \<Rightarrow> nat list
    \<Rightarrow> string \<times> bool \<Rightarrow> string \<times> bool" where
  "stringifyBatch stringify batchData [] (batchStr, isFirstClaim) = (batchStr, isFirstClaim)"
| "stringifyBatch stringify batchData (i # rest) (batchStr, isFirstClaim) =
     (case batchData i of
        None \<Rightarrow> stringifyBatch stringify batchData rest (batchStr, isFirstClaim)
      | Some claim \<Rightarrow>
          stringifyBatch stringify batchData rest
            ((if \<not> isFirstClaim then batchStr @ '','' @ [LF] else batchStr)
               @ ''      '' @ stringify claim, False))"

function loadBatches :: "('j claimData \<Rightarrow> string) \<Rightarrow> 'j storage \<Rightarrow> nat \<Rightarrow> nat
    \<Rightarrow> string list \<times> bool \<times> nat list list \<Rightarrow> string list \<times> bool \<times> nat list list" where
  "loadBatches stringify s count batchStart (blobParts, isFirstClaim, reads) =
     (if batchStart < count then
        (let batchEnd = min (batchStart + LOAD_BATCH_SIZE) count;
             keys = [batchStart..<batchEnd];
             batchData = getKeys s keys;
             batch = stringifyBatch stringify batchData keys ([], isFirstClaim)
         in loadBatches stringify s count (batchStart + LOAD_BATCH_SIZE)
              (if fst batch \<noteq> [] then blobParts @ [fst batch] else blobParts,
               snd batch, reads @ [keys]))
      else (blobParts, isFirstClaim, reads))"
  by pat_completeness auto
termination
  by (relation "measure (\<lambda>(stringify, s, count, batchStart, acc). count - batchStart)")
    (auto simp: LOAD_BATCH_SIZE_def)

definition header :: string where
  "header = ''{'' @ [LF] @ ''  '' @ quoted ''claimWizardData'' @ '': {'' @ [LF]
            @ ''    '' @ quoted ''claims'' @ '': ['' @ [LF]"

definition footer :: "string \<Rightarrow> bool \<Rightarrow> nat \<Rightarrow> nat \<Rightarrow> string" where
  "footer now isPartial count tot =
     [LF] @ ''    ],'' @ [LF]
     @ ''    '' @ quoted ''exportDate'' @ '': '' @ quoted now @ '','' @ [LF]
     @ ''    '' @ quoted ''exportMethod'' @ '': '' @ quoted ''chrome-extension'' @ [LF]
     @ ''  },'' @ [LF]
     @ ''  '' @ quoted ''exportInfo'' @ '': {'' @ [LF]
     @ ''    '' @ quoted ''date'' @ '': '' @ quoted now @ '','' @ [LF]
     @ ''    '' @ quoted ''version'' @ '': '' @ quoted ''1.0.2'' @ '','' @ [LF]
     @ ''    '' @ quoted ''source'' @ '': '' @ quoted ''chrome-extension'' @ '','' @ [LF]
     @ ''    '' @ quoted ''totalClaims'' @ '': '' @ decimal count
     @ (if isPartial then
          '','' @ [LF] @ ''    '' @ quoted ''partial'' @ '': true''
          @ '','' @ [LF] @ ''    '' @ quoted ''originalTotal'' @ '': '' @ decimal tot
          @ '','' @ [LF] @ ''    '' @ quoted ''note'' @ '': ''
          @ quoted (''Partial export: '' @ decimal count @ '' of '' @ decimal tot
                    @ '' claims (interrupted)'')
        else [])
     @ [LF] @ ''  }'' @ [LF] @ ''}''"

definition downloadFromStorage :: "('j claimData \<Rightarrow> string) \<Rightarrow> string \<Rightarrow> bool \<Rightarrow> 'j storage
    \<Rightarrow> (string \<times> nat list list) option" where
  "downloadFromStorage stringify now isPartial s =
     (case exportJob s of
        None \<Rightarrow> None
      | Some job \<Rightarrow>
          if completedCount job = 0 then None
          else
            (let count = completedCount job;
                 tot = total job;
                 loaded = loadBatches stringify s count 0 ([header], True, [])
             in Some (concat (fst loaded @ [footer now isPartial count tot]), snd (snd loaded))))"

text \<open>
  Notions for the statements about the assembler: the records present at the indices below
  \<open>c\<close>, in the order of the indices, and the batches of keys of a count \<open>c\<close>.
\<close>

definition storedRecords :: "'j storage \<Rightarrow> nat \<Rightarrow> 'j claimData list" where
  "storedRecords s c = List.map_filter (exportedClaim s) [0..<c]"

definition batches :: "nat \<Rightarrow> nat list list" where
  "batches c = map (\<lambda>k. [k * 100..<min (k * 100 + 100) c]) [0..<(c + 99) div 100]"

definition claimLines :: "('j claimData \<Rightarrow> string) \<Rightarrow> 'j claimData list \<Rightarrow> string" where
  "claimLines stringify recs = joinWith ('','' @ [LF]) (map (\<lambda>r. ''      '' @ stringify r) recs)"

text \<open>
  The grammar of JSON texts (ECMA-404, in the form of json.org): a text is an element, an
  element is a value between white space, and every derivation gives the value it writes.
  Strings and numbers are kept as their literal text.
\<close>

datatype json = JNull | JBool bool | JNumber string | JString string
  | JArray "json list" | JObject "(string \<times> json) list"

definition BACKSLASH :: char where "BACKSLASH = CHR 0x5C"

definition ws :: "string \<Rightarrow> bool" where
  "ws w \<longleftrightarrow> list_all (\<lambda>c. c = CHR 0x20 \<or> c = LF \<or> c = CR \<or> c = CHR 0x09) w"

definition digit :: "char \<Rightarrow> bool" where
  "digit c \<longleftrightarrow> c \<in> set ''0123456789''"

definition hex :: "char \<Rightarrow> bool" where
  "hex c \<longleftrightarrow> c \<in> set ''0123456789abcdefABCDEF''"

definition escapes :: "char list" where
  "escapes = [DQUOTE, BACKSLASH, CHR ''/'', CHR ''b'', CHR ''f'', CHR ''n'', CHR ''r'', CHR ''t'']"

definition unescaped :: "char \<Rightarrow> bool" where
  "unescaped c \<longleftrightarrow> c \<noteq> DQUOTE \<and> c \<noteq> BACKSLASH \<and> 0x20 \<le> (of_char c :: nat)"

function characters :: "string \<Rightarrow> bool" where
  "characters [] \<longleftrightarrow> True"
| "characters (c # cs) \<longleftrightarrow>
     (if c = BACKSLASH then
        (case cs of
           [] \<Rightarrow> False
         | e # r \<Rightarrow>
             if e = CHR ''u'' then 4 \<le> length r \<and> list_all hex (take 4 r) \<and> characters (drop 4 r)
             else e \<in> set escapes \<and> characters r)
      else unescaped c \<and> characters cs)"
  by pat_completeness auto
termination
  by (relation "measure length") auto

definition integerLit :: "string \<Rightarrow> bool" where
  "integerLit t \<longleftrightarrow> t = ''0'' \<or> (t \<noteq> [] \<and> hd t \<noteq> CHR ''0'' \<and> list_all digit t)"

definition fractionLit :: "string \<Rightarrow> bool" where
  "fractionLit t \<longleftrightarrow> t = [] \<or> (hd t = CHR ''.'' \<and> tl t \<noteq> [] \<and> list_all digit (tl t))"

definition unsigned :: "string \<Rightarrow> string" where
  "unsigned t = (if t \<noteq> [] \<and> (hd t = CHR ''+'' \<or> hd t = CHR ''-'') then tl t else t)"

definition exponentLit :: "string \<Rightarrow> bool" where
  "exponentLit t \<longleftrightarrow>
     t = [] \<or> ((hd t = CHR ''e'' \<or> hd t = CHR ''E'')
                \<and> unsigned (tl t) \<noteq> [] \<and> list_all digit (unsigned (tl t)))"

definition numberLit :: "string \<Rightarrow> bool" where
  "numberLit t \<longleftrightarrow>
     (let u = (if t \<noteq> [] \<and> hd t = CHR ''-'' then tl t else t);
          i = takeWhile digit u;
          r = dropWhile digit u;
          f = (if r \<noteq> [] \<and> hd r = CHR ''.'' then CHR ''.'' # takeWhile digit (tl r) else [])
      in integerLit i \<and> fractionLit f \<and> exponentLit (drop (length f) r))"

inductive jsonValue :: "string \<Rightarrow> json \<Rightarrow> bool"
  and jsonElement :: "string \<Rightarrow> json \<Rightarrow> bool"
  and jsonElements :: "string \<Rightarrow> json list \<Rightarrow> bool"
  and jsonMember :: "string \<Rightarrow> string \<times> json \<Rightarrow> bool"
  and jsonMembers :: "string \<Rightarrow> (string \<times> json) list \<Rightarrow> bool"
where
  nullValue: "jsonValue ''null'' JNull"
| trueValue: "jsonValue ''true'' (JBool True)"
| falseValue: "jsonValue ''false'' (JBool False)"
| numberValue: "numberLit t \<Longrightarrow> jsonValue t (JNumber t)"
| stringValue: "characters t \<Longrightarrow> jsonValue (quoted t) (JString t)"
| emptyArray: "ws w \<Longrightarrow> jsonValue (''['' @ w @ '']'') (JArray [])"
| arrayValue: "jsonElements t vs \<Longrightarrow> jsonValue (''['' @ t @ '']'') (JArray vs)"
| emptyObject: "ws w \<Longrightarrow> jsonValue (''{'' @ w @ ''}'') (JObject [])"
| objectValue: "jsonMembers t ms \<Longrightarrow> jsonValue (''{'' @ t @ ''}'') (JObject ms)"
| element: "ws w \<Longrightarrow> jsonValue t v \<Longrightarrow> ws w' \<Longrightarrow> jsonElement (w @ t @ w') v"
| lastElement: "jsonElement t v \<Longrightarrow> jsonElements t [v]"
| moreElements: "jsonElement t v \<Longrightarrow> jsonElements r vs \<Longrightarrow> jsonElements (t @ '','' @ r) (v # vs)"
| member: "ws w \<Longrightarrow> characters k \<Longrightarrow> ws w' \<Longrightarrow> jsonElement t v
           \<Longrightarrow> jsonMember (w @ quoted k @ w' @ '':'' @ t) (k, v)"
| lastMember: "jsonMember t m \<Longrightarrow> jsonMembers t [m]"
| moreMembers: "jsonMember t m \<Longrightarrow> jsonMembers r ms \<Longrightarrow> jsonMembers (t @ '','' @ r) (m # ms)"

text \<open>The value of the document of the export, with the values \<open>claims\<close> of the records.\<close>

definition exportDocument :: "json list \<Rightarrow> string \<Rightarrow> bool \<Rightarrow> nat \<Rightarrow> nat \<Rightarrow> json" where
  "exportDocument claims now isPartial c t =
     JObject
       [(''claimWizardData'',
           JObject [(''claims'', JArray claims),
                    (''exportDate'', JString now),
                    (''exportMethod'', JString ''chrome-extension'')]),
        (''exportInfo'',
           JObject ([(''date'', JString now),
                     (''version'', JString ''1.0.2''),
                     (''source'', JString ''chrome-extension''),
                     (''totalClaims'', JNumber (decimal c))]
                    @ (if isPartial
                       then [(''partial'', JBool True),
                             (''originalTotal'', JNumber (decimal t)),
                             (''note'', JString (''Partial export: '' @ decimal c @ '' of ''
                                                 @ decimal t @ '' claims (interrupted)''))]
                       else [])))]"

definition readDecimal :: "string \<Rightarrow> nat" where
  "readDecimal t = foldl (\<lambda>a ch. 10 * a + (of_char ch - 48)) 0 t"

declare decimal.simps [simp del]

text \<open>The text the loops append for the records \<open>recs\<close>, entered with the flag \<open>isFirstClaim\<close>.\<close>

fun linesFrom :: "('j claimData \<Rightarrow> string) \<Rightarrow> bool \<Rightarrow> 'j claimData list \<Rightarrow> string" where
  "linesFrom stringify isFirstClaim [] = []"
| "linesFrom stringify isFirstClaim (r # recs) =
     (if isFirstClaim then [] else '','' @ [LF]) @ ''      '' @ stringify r
     @ linesFrom stringify False recs"

text \<open>
  Examples for the assembler. \<open>numberOnly\<close> stands for \<open>JSON.stringify\<close> on records of which
  only the file number is read; \<open>store2of5\<close> is the storage of an export of five claims
  interrupted after the record of the third claim was written and before the ledger
  counted it; \<open>store250\<close> holds 250 records.
\<close>

definition recordNumber :: "'j claimData \<Rightarrow> string" where
  "recordNumber r = (case r of Fetched res \<Rightarrow> resultFileNumber res
                              | FetchError claim e \<Rightarrow> fileNumber claim)"

definition numberOnly :: "'j claimData \<Rightarrow> string" where
  "numberOnly r = ''{'' @ quoted ''fileNumber'' @ '':'' @ quoted (recordNumber r) @ ''}''"

definition numberOnlyJson :: "'j claimData \<Rightarrow> json" where
  "numberOnlyJson r = JObject [(''fileNumber'', JString (recordNumber r))]"

definition now1 :: string where
  "now1 = ''2026-01-15T10:30:00.000Z''"

definition store0of3 :: "unit storage" where
  "store0of3 = cleanStorage\<lparr>exportJob := Some job3\<rparr>"

definition job2of5 :: exportJob where
  "job2of5 = \<lparr>fileNumbers = [''A1'', ''B2'', ''C3'', ''D4'', ''E5''], total = 5, completedCount = 2,
              testMode = False, startedAt = 99\<rparr>"

definition store2of5 :: "unit storage" where
  "store2of5 = cleanStorage
     \<lparr>exportJob := Some job2of5,
      exportedClaim := [0 \<mapsto> found ''A1'',
                        1 \<mapsto> FetchError \<lparr>fileNumber = ''B2'', rowIndex = 2\<rparr> (SearchFailed 500),
                        2 \<mapsto> found ''C3'']\<rparr>"

definition job250 :: exportJob where
  "job250 = \<lparr>fileNumbers = replicate 250 ''A1'', total = 250, completedCount = 250,
             testMode = False, startedAt = 99\<rparr>"

definition store250 :: "unit storage" where
  "store250 = cleanStorage
     \<lparr>exportJob := Some job250,
      exportedClaim := (\<lambda>i. if i < 250 then Some (found ''A1'') else None)\<rparr>"

definition partial2of5 :: string where
  "partial2of5 = concat
     [''{'', [LF],
      ''  '', quoted ''claimWizardData'', '': {'', [LF],
      ''    '', quoted ''claims'', '': ['', [LF],
      ''      {'', quoted ''fileNumber'', '':'', quoted ''A1'', ''},'', [LF],
      ''      {'', quoted ''fileNumber'', '':'', quoted ''B2'', ''}'', [LF],
      ''    ],'', [LF],
      ''    '', quoted ''exportDate'', '': '', quoted ''2026-01-15T10:30:00.000Z'', '','', [LF],
      ''    '', quoted ''exportMethod'', '': '', quoted ''chrome-extension'', [LF],
      ''  },'', [LF],
      ''  '', quoted ''exportInfo'', '': {'', [LF],
      ''    '', quoted ''date'', '': '', quoted ''2026-01-15T10:30:00.000Z'', '','', [LF],
      ''    '', quoted ''version'', '': '', quoted ''1.0.2'', '','', [LF],
      ''    '', quoted ''source'', '': '', quoted ''chrome-extension'', '','', [LF],
      ''    '', quoted ''totalClaims'', '': 2,'', [LF],
      ''    '', quoted ''partial'', '': true,'', [LF],
      ''    '', quoted ''originalTotal'', '': 5,'', [LF],
      ''    '', quoted ''note'', '': '', quoted ''Partial export: 2 of 5 claims (interrupted)'', [LF],
      ''  }'', [LF],
      ''}'']"

(*DEFS*)

section \<open>Verification of the row tokenizer\<close>

lemma trim_trim: "trim (trim s) = trim s"
proof -
  define u where "u = dropWhile js_whitespace s"
  define v where "v = rev (dropWhile js_whitespace (rev u))"
  have v: "trim s = v" by (simp add: trim_def u_def v_def)
  have 1: "dropWhile js_whitespace (rev v) = rev v"
    by (simp add: v_def)
  have "rev u = takeWhile js_whitespace (rev u) @ rev v"
    by (simp add: v_def)
  then have "u = v @ rev (takeWhile js_whitespace (rev u))"
    by (metis rev_append rev_rev_ident)
  then have hd: "v \<noteq> [] \<Longrightarrow> hd v = hd u \<and> u \<noteq> []"
    by (metis hd_append2 append_is_Nil_conv)
  have "v = [] \<or> \<not> js_whitespace (hd v)"
    using hd hd_dropWhile [of js_whitespace s] by (auto simp: u_def)
  then have 2: "dropWhile js_whitespace v = v"
    by (cases v) auto
  show ?thesis unfolding v by (simp add: trim_def 1 2)
qed

lemma scan_escaped:
  "scanCsv (escapeQuotes s @ DQUOTE # rest) True f row rows
     = scanCsv (DQUOTE # rest) True (f @ s) row rows"
  by (induction s arbitrary: f) (simp_all add: escapeQuotes_def split: list.split)

lemma scan_quoted:
  "notQuoteHead rest \<Longrightarrow>
   scanCsv (quoteField s @ rest) False f row rows = scanCsv rest False (f @ s) row rows"
  by (simp add: quoteField_def scan_escaped notQuoteHead_def split: list.splits)

lemma scan_plain_char:
  "c \<noteq> DQUOTE \<Longrightarrow> c \<noteq> COMMA \<Longrightarrow> c \<noteq> LF \<Longrightarrow> c \<noteq> CR \<Longrightarrow>
   scanCsv (c # cs) False f row rows = scanCsv cs False (f @ [c]) row rows"
  by (cases cs) simp_all

lemma scan_plain:
  "plainSafe s \<Longrightarrow>
   scanCsv (s @ rest) False f row rows = scanCsv rest False (f @ s) row rows"
proof (induction s arbitrary: f)
  case Nil
  then show ?case by simp
next
  case (Cons a s)
  have a: "a \<noteq> DQUOTE" "a \<noteq> COMMA" "a \<noteq> LF" "a \<noteq> CR" and s: "plainSafe s"
    using Cons.prems by (simp_all add: plainSafe_def)
  have "scanCsv ((a # s) @ rest) False f row rows = scanCsv (s @ rest) False (f @ [a]) row rows"
    using scan_plain_char [OF a] by simp
  also have "\<dots> = scanCsv rest False ((f @ [a]) @ s) row rows"
    using Cons.IH [OF s] .
  finally show ?case by simp
qed

lemma scan_field:
  "wellWritten fld \<Longrightarrow> notQuoteHead rest \<Longrightarrow>
   scanCsv (writeField fld @ rest) False f row rows = scanCsv rest False (f @ snd fld) row rows"
  by (auto simp: wellWritten_def writeField_def scan_quoted scan_plain simp del: scanCsv.simps)

lemma scan_comma:
  "scanCsv (COMMA # rest) False f row rows = scanCsv rest False [] (row @ [trim f]) rows"
  by (simp add: COMMA_def DQUOTE_def)

lemma scan_lf:
  "scanCsv (LF # rest) False f row rows = scanCsv rest False [] [] (pushRow rows row f)"
  by (simp add: COMMA_def DQUOTE_def LF_def)

lemma scan_crlf:
  "scanCsv (CR # LF # rest) False f row rows = scanCsv rest False [] [] (pushRow rows row f)"
  by (simp add: COMMA_def DQUOTE_def LF_def CR_def)

lemma scan_nl:
  "lineBreak nl \<Longrightarrow>
   scanCsv (nl @ rest) False f row rows = scanCsv rest False [] [] (pushRow rows row f)"
  using scan_lf scan_crlf by (auto simp: lineBreak_def)

lemma notQuoteHead_simps [simp]:
  "notQuoteHead []" "notQuoteHead (COMMA # r)" "notQuoteHead (LF # r)" "notQuoteHead (CR # r)"
  by (simp_all add: notQuoteHead_def COMMA_def DQUOTE_def LF_def CR_def)

lemma notQuoteHead_nl: "lineBreak nl \<Longrightarrow> notQuoteHead (nl @ r)"
  by (auto simp: lineBreak_def)

lemma scan_row:
  "notQuoteHead rest \<Longrightarrow> flds \<noteq> [] \<Longrightarrow> \<forall>fld \<in> set flds. wellWritten fld \<Longrightarrow>
   scanCsv (encodeRow flds @ rest) False [] row rows
     = scanCsv rest False (snd (last flds)) (row @ map fieldText (butlast flds)) rows"
proof (induction flds arbitrary: row rule: induct_list012)
  case 1
  then show ?case by simp
next
  case (2 x)
  then show ?case using scan_field [of x rest "[]"] by (simp add: encodeRow_def)
next
  case (3 x y zs)
  have "scanCsv (encodeRow (x # y # zs) @ rest) False [] row rows
      = scanCsv (writeField x @ COMMA # (encodeRow (y # zs) @ rest)) False [] row rows"
    by (simp add: encodeRow_def)
  also have "\<dots> = scanCsv (encodeRow (y # zs) @ rest) False [] (row @ [fieldText x]) rows"
    using "3.prems" scan_field [of x "COMMA # (encodeRow (y # zs) @ rest)" "[]" row rows]
    by (simp add: scan_comma fieldText_def del: scanCsv.simps)
  also have "\<dots> = scanCsv rest False (snd (last (y # zs)))
       ((row @ [fieldText x]) @ map fieldText (butlast (y # zs))) rows"
    using 3 by simp
  finally show ?case by simp
qed

lemma pushRow_row:
  assumes "flds \<noteq> []"
  shows "pushRow rows (map fieldText (butlast flds)) (snd (last flds))
     = rows @ filter nonBlank [map fieldText flds]"
proof -
  have "map fieldText (butlast flds) @ [fieldText (last flds)] = map fieldText flds"
  proof -
    have "map fieldText flds = map fieldText (butlast flds @ [last flds])"
      using assms by simp
    then show ?thesis by simp
  qed
  then show ?thesis by (simp add: pushRow_def nonBlank_def Let_def fieldText_def)
qed

lemma pushRow_empty: "pushRow rows [] [] = rows"
  by (simp add: pushRow_def trim_def)

definition pendingField :: "(bool \<times> string) list \<Rightarrow> string" where
  "pendingField flds = (if flds = [] then [] else snd (last flds))"

lemma scan_row_any:
  "notQuoteHead rest \<Longrightarrow> \<forall>fld \<in> set flds. wellWritten fld \<Longrightarrow>
   scanCsv (encodeRow flds @ rest) False [] [] rows
     = scanCsv rest False (pendingField flds) (map fieldText (butlast flds)) rows"
  using scan_row [of rest flds "[]" rows]
  by (cases "flds = []") (simp_all add: encodeRow_def pendingField_def)

lemma pushRow_any:
  "pushRow rows (map fieldText (butlast flds)) (pendingField flds)
     = rows @ filter nonBlank [map fieldText flds]"
  using pushRow_row [of flds rows] pushRow_empty [of rows]
  by (cases "flds = []") (simp_all add: pendingField_def nonBlank_def)

lemma scan_table:
  "lineBreak nl \<Longrightarrow> \<forall>r \<in> set table. \<forall>fld \<in> set r. wellWritten fld \<Longrightarrow>
   scanCsv (encodeCsv nl table) False [] [] rows
     = rows @ filter nonBlank (map (map fieldText) table)"
proof (induction table arbitrary: rows rule: induct_list012)
  case 1
  then show ?case by (simp add: encodeCsv_def pushRow_empty)
next
  case (2 r)
  have "scanCsv (encodeCsv nl [r]) False [] [] rows = scanCsv (encodeRow r @ []) False [] [] rows"
    by (simp add: encodeCsv_def)
  also have "\<dots> = pushRow rows (map fieldText (butlast r)) (pendingField r)"
    using 2 by (subst scan_row_any) simp_all
  finally show ?case using pushRow_any [of rows r] by simp
next
  case (3 r r' rs)
  have "scanCsv (encodeCsv nl (r # r' # rs)) False [] [] rows
      = scanCsv (encodeRow r @ (nl @ encodeCsv nl (r' # rs))) False [] [] rows"
    by (simp add: encodeCsv_def)
  also have "\<dots> = scanCsv (nl @ encodeCsv nl (r' # rs)) False (pendingField r)
       (map fieldText (butlast r)) rows"
    using 3(3,4) by (subst scan_row_any) (simp_all add: notQuoteHead_nl)
  also have "\<dots> = scanCsv (encodeCsv nl (r' # rs)) False [] []
       (pushRow rows (map fieldText (butlast r)) (pendingField r))"
    using 3(3) by (rule scan_nl)
  also have "\<dots> = (rows @ filter nonBlank [map fieldText r])
       @ filter nonBlank (map (map fieldText) (r' # rs))"
    using 3 pushRow_any [of rows r] by simp
  finally show ?case by simp
qed

definition rowOk :: "string list \<Rightarrow> bool" where
  "rowOk row \<longleftrightarrow> (\<forall>f \<in> set row. trim f = f)"

lemma pushRow_inv:
  "\<forall>r \<in> set rows. nonBlank r \<and> rowOk r \<Longrightarrow> rowOk row \<Longrightarrow>
   \<forall>r \<in> set (pushRow rows row f). nonBlank r \<and> rowOk r"
  by (auto simp: pushRow_def nonBlank_def rowOk_def Let_def trim_trim)

lemma scan_inv:
  "\<forall>r \<in> set rows. nonBlank r \<and> rowOk r \<Longrightarrow> rowOk row \<Longrightarrow>
   \<forall>r \<in> set (scanCsv cs q f row rows). nonBlank r \<and> rowOk r"
proof (induction cs q f row rows rule: scanCsv.induct)
  case (1 inQuotes currentField currentRow rows)
  then show ?case using pushRow_inv [of rows currentRow currentField] by simp
next
  case (2 c cs currentField currentRow rows)
  then show ?case by (simp split: list.split)
next
  case (3 c cs currentField currentRow rows)
  have row': "rowOk (currentRow @ [trim currentField])"
    using "3.prems"(2) by (simp add: rowOk_def trim_trim)
  have nil: "rowOk []" by (simp add: rowOk_def)
  have push: "\<forall>r \<in> set (pushRow rows currentRow currentField). nonBlank r \<and> rowOk r"
    using "3.prems" by (rule pushRow_inv)
  show ?case using 3 row' nil push by (simp split: list.split)
qed

text \<open>
  Claim C5. The tokenizer reads a well-written CSV text back as its table: the content of
  a quoted field is taken literally, commas and line breaks included, with every doubled
  quote read as one quote; a comma outside quotes ends the field and a line break (LF or
  CR LF) outside quotes ends the row; every field is trimmed and the rows left without a
  non-empty field are dropped. On any text at all, every row returned has a non-empty
  field and every field returned is trimmed. The text of the example parses to one row of
  three fields, the second with the quote and the third with the comma and the newline.
\<close>

theorem parseCsvRows_tokenizer:
  "(lineBreak nl \<and> (\<forall>r \<in> set table. \<forall>fld \<in> set r. wellWritten fld) \<longrightarrow>
      parseCsvRows (encodeCsv nl table) = filter nonBlank (map (map fieldText) table))
   \<and> (\<forall>row \<in> set (parseCsvRows csvText). nonBlank row \<and> (\<forall>f \<in> set row. trim f = f))
   \<and> parseCsvRows ([DQUOTE] @ ''file'' @ [DQUOTE, COMMA, DQUOTE] @ ''note'' @ [DQUOTE, DQUOTE]
        @ ''s'' @ [DQUOTE, COMMA, DQUOTE] @ ''Jones, K.'' @ [LF] @ ''more text'' @ [DQUOTE])
      = [[''file'', ''note'' @ [DQUOTE] @ ''s'', ''Jones, K.'' @ [LF] @ ''more text'']]"
proof (intro conjI impI)
  assume "lineBreak nl \<and> (\<forall>r \<in> set table. \<forall>fld \<in> set r. wellWritten fld)"
  then show "parseCsvRows (encodeCsv nl table) = filter nonBlank (map (map fieldText) table)"
    using scan_table [of nl table "[]"] by (simp add: parseCsvRows_def)
next
  have "\<forall>r \<in> set (scanCsv csvText False [] [] []). nonBlank r \<and> rowOk r"
    by (rule scan_inv) (simp_all add: rowOk_def)
  then show "\<forall>row \<in> set (parseCsvRows csvText). nonBlank row \<and> (\<forall>f \<in> set row. trim f = f)"
    by (simp add: parseCsvRows_def rowOk_def)
next
  show "parseCsvRows ([DQUOTE] @ ''file'' @ [DQUOTE, COMMA, DQUOTE] @ ''note'' @ [DQUOTE, DQUOTE]
        @ ''s'' @ [DQUOTE, COMMA, DQUOTE] @ ''Jones, K.'' @ [LF] @ ''more text'' @ [DQUOTE])
      = [[''file'', ''note'' @ [DQUOTE] @ ''s'', ''Jones, K.'' @ [LF] @ ''more text'']]"
    by code_simp
qed

theorem parseCsvRows_tokenizer_witness:
  "lineBreak [CR, LF]
   \<and> wellWritten (False, '' id '') \<and> wellWritten (True, ''a,b'')
   \<and> wellWritten (False, []) \<and> wellWritten (True, '' '')
   \<and> wellWritten (True, ''x'' @ [DQUOTE, LF] @ ''y'')
   \<and> parseCsvRows (encodeCsv [CR, LF]
        [[(False, '' id ''), (True, ''a,b'')], [(False, []), (True, '' '')],
         [(True, ''x'' @ [DQUOTE, LF] @ ''y'')]])
      = [[''id'', ''a,b''], [''x'' @ [DQUOTE, LF] @ ''y'']]
   \<and> [''a'', ''b''] \<in> set (parseCsvRows ('' a , b'' @ [LF, LF] @ ''c''))
   \<and> nonBlank [''a'', ''b''] \<and> trim ''a'' = ''a'' \<and> trim ''b'' = ''b''"
proof -
  let ?T = "[[(False, '' id ''), (True, ''a,b'')], [(False, []), (True, '' '')],
             [(True, ''x'' @ [DQUOTE, LF] @ ''y'')]]"
  let ?t = "'' a , b'' @ [LF, LF] @ ''c''"
  note inst = parseCsvRows_tokenizer [of "[CR, LF]" "?T" "?t"]
  have w: "lineBreak [CR, LF]" "wellWritten (False, '' id '')" "wellWritten (True, ''a,b'')"
    "wellWritten (False, [])" "wellWritten (True, '' '')"
    "wellWritten (True, ''x'' @ [DQUOTE, LF] @ ''y'')"
    by code_simp+
  then have "parseCsvRows (encodeCsv [CR, LF] ?T) = filter nonBlank (map (map fieldText) ?T)"
    using inst by simp
  moreover have "filter nonBlank (map (map fieldText) ?T)
      = [[''id'', ''a,b''], [''x'' @ [DQUOTE, LF] @ ''y'']]"
    by code_simp
  moreover have m: "[''a'', ''b''] \<in> set (parseCsvRows ?t)"
    by code_simp
  moreover have "nonBlank [''a'', ''b''] \<and> (\<forall>f \<in> set [''a'', ''b'']. trim f = f)"
    using inst m by blast
  ultimately show ?thesis using w by simp
qed

section \<open>Verification of the CSV reader\<close>

lemma findIndex_Some: "findIndex p xs = Some i \<longleftrightarrow> firstMatch p xs i"
proof (induction xs arbitrary: i)
  case Nil
  then show ?case by (simp add: firstMatch_def)
next
  case (Cons x xs)
  show ?case
  proof (cases "p x")
    case True
    then show ?thesis by (auto simp: firstMatch_def)
  next
    case False
    show ?thesis
    proof (cases i)
      case 0
      then show ?thesis using False by (auto simp: firstMatch_def)
    next
      case (Suc k)
      have "firstMatch p (x # xs) (Suc k) \<longleftrightarrow> firstMatch p xs k"
        using False by (auto simp: firstMatch_def less_Suc_eq_0_disj)
      then show ?thesis using False Suc Cons.IH [of k] by auto
    qed
  qed
qed

lemma findIndex_None: "findIndex p xs = None \<longleftrightarrow> (\<forall>x \<in> set xs. \<not> p x)"
  by (induction xs) auto

lemma set_firstSeen: "set (firstSeen xs) = set xs"
  by (induction xs) auto

lemma distinct_firstSeen: "distinct (firstSeen xs)"
  by (induction xs) (auto simp: set_firstSeen)

lemma filter_firstSeen: "filter q (firstSeen xs) = firstSeen (filter q xs)"
proof (induction xs)
  case Nil
  then show ?case by simp
next
  case (Cons x xs)
  have comm: "filter q (filter (\<lambda>y. y \<noteq> x) (firstSeen xs))
      = filter (\<lambda>y. y \<noteq> x) (firstSeen (filter q xs))"
  proof -
    have "filter q (filter (\<lambda>y. y \<noteq> x) (firstSeen xs))
        = filter (\<lambda>y. y \<noteq> x) (filter q (firstSeen xs))"
      by (simp add: conj_commute)
    then show ?thesis using Cons by simp
  qed
  show ?case
  proof (cases "q x")
    case True
    then show ?thesis using comm by simp
  next
    case False
    then have "x \<notin> set (firstSeen (filter q xs))"
      by (simp add: set_firstSeen)
    then have "filter (\<lambda>y. y \<noteq> x) (firstSeen (filter q xs)) = firstSeen (filter q xs)"
      by (auto simp: filter_id_conv)
    then show ?thesis using False comm by simp
  qed
qed

lemma collectClaims_numbers:
  "map fileNumber (fst (collectClaims idx i rs seen claims k))
     = map fileNumber claims
       @ firstSeen (filter (\<lambda>v. v \<noteq> [] \<and> v \<notin> seen) (columnValues idx rs))"
proof (induction rs arbitrary: i seen claims k)
  case Nil
  then show ?case by (simp add: columnValues_def)
next
  case (Cons r rs)
  show ?case
  proof (cases "length r < idx + 1")
    case True
    then show ?thesis using Cons [of "i + 1" seen claims "k + 1"] by (simp add: columnValues_def)
  next
    case long: False
    define v where "v = r ! idx"
    have cv: "columnValues idx (r # rs) = v # columnValues idx rs"
      using long by (simp add: columnValues_def v_def)
    show ?thesis
    proof (cases "v \<noteq> [] \<and> v \<notin> seen")
      case True
      have "filter (\<lambda>y. y \<noteq> v) (firstSeen (filter (\<lambda>w. w \<noteq> [] \<and> w \<notin> seen) (columnValues idx rs)))
          = firstSeen (filter (\<lambda>w. w \<noteq> [] \<and> w \<notin> insert v seen) (columnValues idx rs))"
        by (simp add: filter_firstSeen conj_commute conj_left_commute)
      moreover have "collectClaims idx i (r # rs) seen claims k
          = collectClaims idx (i + 1) rs (insert v seen)
              (claims @ [\<lparr>fileNumber = v, rowIndex = i\<rparr>]) k"
        using long True by (simp add: v_def Let_def)
      moreover have "filter (\<lambda>w. w \<noteq> [] \<and> w \<notin> seen) (columnValues idx (r # rs))
          = v # filter (\<lambda>w. w \<noteq> [] \<and> w \<notin> seen) (columnValues idx rs)"
        using True by (simp add: cv)
      ultimately show ?thesis
        using Cons [of "i + 1" "insert v seen" "claims @ [\<lparr>fileNumber = v, rowIndex = i\<rparr>]" k]
        by simp
    next
      case False
      then have "collectClaims idx i (r # rs) seen claims k
          = collectClaims idx (i + 1) rs seen claims k"
        using long by (auto simp: v_def Let_def)
      moreover have "filter (\<lambda>w. w \<noteq> [] \<and> w \<notin> seen) (columnValues idx (r # rs))
          = filter (\<lambda>w. w \<noteq> [] \<and> w \<notin> seen) (columnValues idx rs)"
        using False by (simp add: cv)
      ultimately show ?thesis
        using Cons [of "i + 1" seen claims k] by simp
    qed
  qed
qed

lemma collectClaims_skipped:
  "snd (collectClaims idx i rs seen claims k)
     = k + length (filter (\<lambda>values. length values < idx + 1) rs)"
  by (induction rs arbitrary: i seen claims k) (simp_all add: Let_def)

lemma collectClaims_rows:
  "c \<in> set (fst (collectClaims idx i rs seen claims k)) \<Longrightarrow>
   c \<in> set claims \<or>
   (i \<le> rowIndex c \<and> rowIndex c < i + length rs \<and> idx < length (rs ! (rowIndex c - i))
      \<and> rs ! (rowIndex c - i) ! idx = fileNumber c)"
proof (induction rs arbitrary: i seen claims k)
  case Nil
  then show ?case by simp
next
  case (Cons r rs)
  let ?next = "\<lambda>c. Suc i \<le> rowIndex c \<and> rowIndex c < Suc i + length rs
      \<and> idx < length (rs ! (rowIndex c - Suc i)) \<and> rs ! (rowIndex c - Suc i) ! idx = fileNumber c"
  have shift: "?next c \<Longrightarrow> i \<le> rowIndex c \<and> rowIndex c < i + length (r # rs)
      \<and> idx < length ((r # rs) ! (rowIndex c - i)) \<and> (r # rs) ! (rowIndex c - i) ! idx = fileNumber c"
  proof -
    assume n: "?next c"
    then have "rowIndex c - i = Suc (rowIndex c - Suc i)"
      by linarith
    then show ?thesis using n by simp
  qed
  consider (short) "length r < idx + 1"
    | (new) "\<not> length r < idx + 1" "r ! idx \<noteq> [] \<and> r ! idx \<notin> seen"
    | (old) "\<not> length r < idx + 1" "\<not> (r ! idx \<noteq> [] \<and> r ! idx \<notin> seen)"
    by blast
  then show ?case
  proof cases
    case short
    then have "c \<in> set (fst (collectClaims idx (Suc i) rs seen claims (k + 1)))"
      using Cons.prems by simp
    then show ?thesis using Cons.IH shift by blast
  next
    case new
    then have "c \<in> set (fst (collectClaims idx (Suc i) rs (insert (r ! idx) seen)
        (claims @ [\<lparr>fileNumber = r ! idx, rowIndex = i\<rparr>]) k))"
      using Cons.prems by (simp add: Let_def)
    then have "c \<in> set (claims @ [\<lparr>fileNumber = r ! idx, rowIndex = i\<rparr>]) \<or> ?next c"
      using Cons.IH by blast
    then show ?thesis using shift new by auto
  next
    case old
    then have "c \<in> set (fst (collectClaims idx (Suc i) rs seen claims k))"
      using Cons.prems by (auto simp: Let_def)
    then show ?thesis using Cons.IH shift by blast
  qed
qed

lemma selectColumn_None:
  "selectColumn headers = None \<longleftrightarrow> (\<forall>h \<in> set headers. matchesNoTier h)"
proof -
  have some: "\<exists>h \<in> set headers. p h" if "findIndex p headers = Some i" for p i
    using that findIndex_None [of p headers] by auto
  show ?thesis
  proof (cases "findIndex tier1 headers")
    case None
    show ?thesis
    proof (cases "findIndex tier2 headers")
      case n2: None
      have "selectColumn headers = findIndex tier3 headers"
        using None n2 by (simp add: selectColumn_def)
      moreover have "\<forall>h \<in> set headers. \<not> tier1 h" "\<forall>h \<in> set headers. \<not> tier2 h"
        using None n2 by (simp_all add: findIndex_None)
      ultimately show ?thesis
        by (auto simp: matchesNoTier_def findIndex_None)
    next
      case (Some i)
      have "selectColumn headers = Some i"
        using None Some by (simp add: selectColumn_def)
      then show ?thesis using some [OF Some] unfolding matchesNoTier_def by auto
    qed
  next
    case (Some i)
    have "selectColumn headers = Some i"
      using Some by (simp add: selectColumn_def)
    then show ?thesis using some [OF Some] unfolding matchesNoTier_def by auto
  qed
qed

lemma selectColumn_tier1:
  assumes "\<exists>h \<in> set headers. tier1 h"
  shows "\<exists>i. selectColumn headers = Some i \<and> firstMatch tier1 headers i"
proof -
  obtain i where i: "findIndex tier1 headers = Some i"
    using assms findIndex_None [of tier1 headers] by (cases "findIndex tier1 headers") auto
  then have "selectColumn headers = Some i" by (simp add: selectColumn_def)
  then show ?thesis using i findIndex_Some [of tier1 headers i] by blast
qed

lemma selectColumn_tier2:
  assumes "\<forall>h \<in> set headers. \<not> tier1 h" "\<exists>h \<in> set headers. tier2 h"
  shows "\<exists>i. selectColumn headers = Some i \<and> firstMatch tier2 headers i"
proof -
  have 1: "findIndex tier1 headers = None"
    using assms(1) by (simp add: findIndex_None)
  obtain i where i: "findIndex tier2 headers = Some i"
    using assms(2) findIndex_None [of tier2 headers] by (cases "findIndex tier2 headers") auto
  then have "selectColumn headers = Some i" using 1 by (simp add: selectColumn_def)
  then show ?thesis using i findIndex_Some [of tier2 headers i] by blast
qed

lemma selectColumn_tier3:
  assumes "\<forall>h \<in> set headers. \<not> tier1 h \<and> \<not> tier2 h" "\<exists>h \<in> set headers. tier3 h"
  shows "\<exists>i. selectColumn headers = Some i \<and> firstMatch tier3 headers i"
proof -
  have 1: "findIndex tier1 headers = None" and 2: "findIndex tier2 headers = None"
    using assms(1) by (simp_all add: findIndex_None)
  obtain i where i: "findIndex tier3 headers = Some i"
    using assms(2) findIndex_None [of tier3 headers] by (cases "findIndex tier3 headers") auto
  then have "selectColumn headers = Some i" using 1 2 by (simp add: selectColumn_def)
  then show ?thesis using i findIndex_Some [of tier3 headers i] by blast
qed

lemma claimsOfRows_short: "length rows < 2 \<Longrightarrow> claimsOfRows rows = Inl EmptyOrInvalidInput"
  by (auto simp: claimsOfRows_def split: list.splits)

lemma claimsOfRows_long:
  "claimsOfRows (headers # r # rs) =
     (case selectColumn headers of
        None \<Rightarrow> Inl (MissingIdentifierColumn headers)
      | Some idx \<Rightarrow> Inr (fst (collectClaims idx 1 (r # rs) {} [] 0)))"
  by (simp add: claimsOfRows_def)

lemma claimsOfRows_missing:
  "(\<exists>hs. claimsOfRows rows = Inl (MissingIdentifierColumn hs))
     \<longleftrightarrow> 2 \<le> length rows \<and> (\<forall>h \<in> set (hd rows). matchesNoTier h)"
proof (cases "length rows < 2")
  case True
  then show ?thesis using claimsOfRows_short [of rows] by simp
next
  case False
  then obtain headers r rs where rows: "rows = headers # r # rs"
    by (cases rows; cases "tl rows") auto
  show ?thesis
    unfolding rows using selectColumn_None [of headers]
    by (cases "selectColumn headers") (simp_all add: claimsOfRows_long)
qed

lemma tier1_words:
  "tier1 h \<longleftrightarrow>
     trim (toLowerCase h) \<in> {''file number'', ''file #'', ''file#'', ''filenumber'',
                              ''claim number'', ''claim #'', ''claim#'', ''claimnumber''}"
  by (simp add: tier1_def exactNames_def)

lemma tier2_words:
  "tier2 h \<longleftrightarrow>
     (prefix ''file'' (trim (toLowerCase h)) \<or> prefix ''claim'' (trim (toLowerCase h)))
     \<and> (sublist ''number'' (trim (toLowerCase h)) \<or> sublist ''#'' (trim (toLowerCase h))
          \<or> sublist ''no'' (trim (toLowerCase h)))"
  by (simp add: tier2_def startsWith_def includesStr_def Let_def)

lemma tier3_words:
  "tier3 h \<longleftrightarrow>
     (sublist ''file'' (trim (toLowerCase h)) \<or> sublist ''claim'' (trim (toLowerCase h)))
     \<and> \<not> sublist ''profile'' (trim (toLowerCase h)) \<and> \<not> sublist ''filed'' (trim (toLowerCase h))
     \<and> \<not> sublist ''filename'' (trim (toLowerCase h))
     \<and> \<not> sublist ''claim status'' (trim (toLowerCase h))
     \<and> \<not> sublist ''claim type'' (trim (toLowerCase h))
     \<and> \<not> sublist ''claim date'' (trim (toLowerCase h))"
  by (auto simp: tier3_def includesStr_def excludePatterns_def Let_def)

text \<open>
  Claim C6, as the code has it. Tier 1 accepts a header that, in lower case and trimmed, is
  one of the eight names; tier 2 one that starts with \<open>file\<close> or \<open>claim\<close> and contains
  \<open>number\<close>, \<open>#\<close> or \<open>no\<close>; tier 3 one that contains \<open>file\<close> or \<open>claim\<close> and none of the six
  exclusion substrings. The tiers are tried in this order over all the headers, and within
  a tier the first matching header wins: a header of tier 1 such as \<open>Claim #\<close> is selected
  after an earlier header of tier 3 such as \<open>Claimant\<close> or of tier 2 such as \<open>File No\<close>,
  a header of tier 2 such as \<open>Claim No.\<close> is selected after an earlier header of tier 3,
  and a header of tier 3 is selected when no header is of tier 1 or 2. The header
  \<open>Claim Status\<close> is accepted by no tier (tier 3 excludes it), and the example of the
  specification yields the identifier \<open>12345\<close>. \<open>parseCsv\<close> fails with
  \<open>EmptyOrInvalidInput\<close> when the tokenizer returns fewer than two rows, and it fails with
  \<open>MissingIdentifierColumn\<close> exactly when there are two rows or more and no header is
  accepted by any tier.
\<close>

theorem parseCsv_column_selection:
  "(tier1 h \<longleftrightarrow>
     trim (toLowerCase h) \<in> {''file number'', ''file #'', ''file#'', ''filenumber'',
                              ''claim number'', ''claim #'', ''claim#'', ''claimnumber''})
   \<and> (tier2 h \<longleftrightarrow>
     (prefix ''file'' (trim (toLowerCase h)) \<or> prefix ''claim'' (trim (toLowerCase h)))
     \<and> (sublist ''number'' (trim (toLowerCase h)) \<or> sublist ''#'' (trim (toLowerCase h))
          \<or> sublist ''no'' (trim (toLowerCase h))))
   \<and> (tier3 h \<longleftrightarrow>
     (sublist ''file'' (trim (toLowerCase h)) \<or> sublist ''claim'' (trim (toLowerCase h)))
     \<and> \<not> sublist ''profile'' (trim (toLowerCase h)) \<and> \<not> sublist ''filed'' (trim (toLowerCase h))
     \<and> \<not> sublist ''filename'' (trim (toLowerCase h))
     \<and> \<not> sublist ''claim status'' (trim (toLowerCase h))
     \<and> \<not> sublist ''claim type'' (trim (toLowerCase h))
     \<and> \<not> sublist ''claim date'' (trim (toLowerCase h)))
   \<and> ((\<exists>h \<in> set headers. tier1 h) \<longrightarrow>
      (\<exists>i. selectColumn headers = Some i \<and> firstMatch tier1 headers i))
   \<and> ((\<forall>h \<in> set headers. \<not> tier1 h) \<and> (\<exists>h \<in> set headers. tier2 h) \<longrightarrow>
      (\<exists>i. selectColumn headers = Some i \<and> firstMatch tier2 headers i))
   \<and> ((\<forall>h \<in> set headers. \<not> tier1 h \<and> \<not> tier2 h) \<and> (\<exists>h \<in> set headers. tier3 h) \<longrightarrow>
      (\<exists>i. selectColumn headers = Some i \<and> firstMatch tier3 headers i))
   \<and> (selectColumn headers = None \<longleftrightarrow> (\<forall>h \<in> set headers. matchesNoTier h))
   \<and> (length (parseCsvRows csvText) < 2 \<longrightarrow> parseCsv csvText = Inl EmptyOrInvalidInput)
   \<and> ((\<exists>hs. parseCsv csvText = Inl (MissingIdentifierColumn hs)) \<longleftrightarrow>
        2 \<le> length (parseCsvRows csvText)
        \<and> (\<forall>h \<in> set (hd (parseCsvRows csvText)). matchesNoTier h))
   \<and> tier1 ''Claim #'' \<and> tier1 '' FILE Number ''
   \<and> tier2 ''Claim No.'' \<and> \<not> tier1 ''Claim No.''
   \<and> tier2 ''File No'' \<and> \<not> tier1 ''File No''
   \<and> tier3 ''Claimant'' \<and> \<not> tier1 ''Claimant'' \<and> \<not> tier2 ''Claimant''
   \<and> selectColumn [''Claimant'', ''Claim #'', ''Adjuster''] = Some 1
   \<and> selectColumn [''File No'', ''Claim #''] = Some 1
   \<and> selectColumn [''Claimant'', ''Claim No.''] = Some 1
   \<and> selectColumn [''Name'', ''Claimant'', ''Claim File''] = Some 1
   \<and> matchesNoTier ''Claim Status''
   \<and> parseCsv (''Claim Status,Claim #,Adjuster'' @ [LF] @ ''Open,12345,Jane'')
      = Inr [\<lparr>fileNumber = ''12345'', rowIndex = 1\<rparr>]
   \<and> parseCsv (''Claimant,Claim No.'' @ [LF] @ ''Bob,77'')
      = Inr [\<lparr>fileNumber = ''77'', rowIndex = 1\<rparr>]
   \<and> parseCsv (''Name,Claimant'' @ [LF] @ ''Al,Bob'')
      = Inr [\<lparr>fileNumber = ''Bob'', rowIndex = 1\<rparr>]"
proof (intro conjI)
  show "tier1 h \<longleftrightarrow>
     trim (toLowerCase h) \<in> {''file number'', ''file #'', ''file#'', ''filenumber'',
                              ''claim number'', ''claim #'', ''claim#'', ''claimnumber''}"
    by (rule tier1_words)
  show "tier2 h \<longleftrightarrow>
     (prefix ''file'' (trim (toLowerCase h)) \<or> prefix ''claim'' (trim (toLowerCase h)))
     \<and> (sublist ''number'' (trim (toLowerCase h)) \<or> sublist ''#'' (trim (toLowerCase h))
          \<or> sublist ''no'' (trim (toLowerCase h)))"
    by (rule tier2_words)
  show "tier3 h \<longleftrightarrow>
     (sublist ''file'' (trim (toLowerCase h)) \<or> sublist ''claim'' (trim (toLowerCase h)))
     \<and> \<not> sublist ''profile'' (trim (toLowerCase h)) \<and> \<not> sublist ''filed'' (trim (toLowerCase h))
     \<and> \<not> sublist ''filename'' (trim (toLowerCase h))
     \<and> \<not> sublist ''claim status'' (trim (toLowerCase h))
     \<and> \<not> sublist ''claim type'' (trim (toLowerCase h))
     \<and> \<not> sublist ''claim date'' (trim (toLowerCase h))"
    by (rule tier3_words)
  show "(\<exists>h \<in> set headers. tier1 h) \<longrightarrow>
      (\<exists>i. selectColumn headers = Some i \<and> firstMatch tier1 headers i)"
    using selectColumn_tier1 by blast
  show "(\<forall>h \<in> set headers. \<not> tier1 h) \<and> (\<exists>h \<in> set headers. tier2 h) \<longrightarrow>
      (\<exists>i. selectColumn headers = Some i \<and> firstMatch tier2 headers i)"
    using selectColumn_tier2 by blast
  show "(\<forall>h \<in> set headers. \<not> tier1 h \<and> \<not> tier2 h) \<and> (\<exists>h \<in> set headers. tier3 h) \<longrightarrow>
      (\<exists>i. selectColumn headers = Some i \<and> firstMatch tier3 headers i)"
    using selectColumn_tier3 by blast
  show "selectColumn headers = None \<longleftrightarrow> (\<forall>h \<in> set headers. matchesNoTier h)"
    by (rule selectColumn_None)
  show "length (parseCsvRows csvText) < 2 \<longrightarrow> parseCsv csvText = Inl EmptyOrInvalidInput"
    by (simp add: parseCsv_def claimsOfRows_short)
  show "(\<exists>hs. parseCsv csvText = Inl (MissingIdentifierColumn hs)) \<longleftrightarrow>
        2 \<le> length (parseCsvRows csvText)
        \<and> (\<forall>h \<in> set (hd (parseCsvRows csvText)). matchesNoTier h)"
    unfolding parseCsv_def by (rule claimsOfRows_missing)
  show "tier1 ''Claim #''" by code_simp
  show "tier1 '' FILE Number ''" by code_simp
  show "tier2 ''Claim No.''" by code_simp
  show "\<not> tier1 ''Claim No.''" by code_simp
  show "tier2 ''File No''" by code_simp
  show "\<not> tier1 ''File No''" by code_simp
  show "tier3 ''Claimant''" by code_simp
  show "\<not> tier1 ''Claimant''" by code_simp
  show "\<not> tier2 ''Claimant''" by code_simp
  show "selectColumn [''Claimant'', ''Claim #'', ''Adjuster''] = Some 1" by code_simp
  show "selectColumn [''File No'', ''Claim #''] = Some 1" by code_simp
  show "selectColumn [''Claimant'', ''Claim No.''] = Some 1" by code_simp
  show "selectColumn [''Name'', ''Claimant'', ''Claim File''] = Some 1" by code_simp
  show "matchesNoTier ''Claim Status''" by code_simp
  show "parseCsv (''Claim Status,Claim #,Adjuster'' @ [LF] @ ''Open,12345,Jane'')
      = Inr [\<lparr>fileNumber = ''12345'', rowIndex = 1\<rparr>]"
    by code_simp
  show "parseCsv (''Claimant,Claim No.'' @ [LF] @ ''Bob,77'')
      = Inr [\<lparr>fileNumber = ''77'', rowIndex = 1\<rparr>]"
    by code_simp
  show "parseCsv (''Name,Claimant'' @ [LF] @ ''Al,Bob'')
      = Inr [\<lparr>fileNumber = ''Bob'', rowIndex = 1\<rparr>]"
    by code_simp
qed

theorem parseCsv_column_selection_witness:
  "tier1 ''File Number'' \<and> selectColumn [''Claimant'', ''File Number''] = Some 1
   \<and> firstMatch tier1 [''Claimant'', ''File Number''] 1
   \<and> \<not> tier1 ''Claimant'' \<and> \<not> tier1 ''Claim No.'' \<and> tier2 ''Claim No.''
   \<and> selectColumn [''Claimant'', ''Claim No.''] = Some 1
   \<and> firstMatch tier2 [''Claimant'', ''Claim No.''] 1
   \<and> \<not> tier1 ''Name'' \<and> \<not> tier2 ''Name'' \<and> \<not> tier2 ''Claimant'' \<and> tier3 ''Claimant''
   \<and> selectColumn [''Name'', ''Claimant''] = Some 1
   \<and> firstMatch tier3 [''Name'', ''Claimant''] 1
   \<and> length (parseCsvRows ''Claim #'') < 2 \<and> parseCsv ''Claim #'' = Inl EmptyOrInvalidInput
   \<and> 2 \<le> length (parseCsvRows (''Name,Status'' @ [LF] @ ''Al,Open''))
   \<and> matchesNoTier ''Name'' \<and> matchesNoTier ''Status''
   \<and> (\<exists>hs. parseCsv (''Name,Status'' @ [LF] @ ''Al,Open'') = Inl (MissingIdentifierColumn hs))"
proof -
  note inst1 = parseCsv_column_selection [of "[]" "[''Claimant'', ''File Number'']" "''Claim #''"]
  note inst2 = parseCsv_column_selection [of "[]" "[''Claimant'', ''Claim No.'']"
      "''Name,Status'' @ [LF] @ ''Al,Open''"]
  note inst3 = parseCsv_column_selection [of "[]" "[''Name'', ''Claimant'']" "[]"]
  have t1: "tier1 ''File Number''" by code_simp
  have s1: "selectColumn [''Claimant'', ''File Number''] = Some 1" by code_simp
  have "(\<exists>h \<in> set [''Claimant'', ''File Number'']. tier1 h) \<longrightarrow>
      (\<exists>i. selectColumn [''Claimant'', ''File Number''] = Some i
        \<and> firstMatch tier1 [''Claimant'', ''File Number''] i)"
    using inst1 by (elim conjE)
  then have f1: "firstMatch tier1 [''Claimant'', ''File Number''] 1"
    using t1 s1 by auto
  have t2: "\<not> tier1 ''Claimant''" "\<not> tier1 ''Claim No.''" "tier2 ''Claim No.''" by code_simp+
  have s2: "selectColumn [''Claimant'', ''Claim No.''] = Some 1" by code_simp
  have "(\<forall>h \<in> set [''Claimant'', ''Claim No.'']. \<not> tier1 h)
      \<and> (\<exists>h \<in> set [''Claimant'', ''Claim No.'']. tier2 h) \<longrightarrow>
      (\<exists>i. selectColumn [''Claimant'', ''Claim No.''] = Some i
        \<and> firstMatch tier2 [''Claimant'', ''Claim No.''] i)"
    using inst2 by (elim conjE)
  then have f2: "firstMatch tier2 [''Claimant'', ''Claim No.''] 1"
    using t2 s2 by auto
  have t3: "\<not> tier1 ''Name''" "\<not> tier2 ''Name''" "\<not> tier2 ''Claimant''" "tier3 ''Claimant''"
    by code_simp+
  have s3: "selectColumn [''Name'', ''Claimant''] = Some 1" by code_simp
  have "(\<forall>h \<in> set [''Name'', ''Claimant'']. \<not> tier1 h \<and> \<not> tier2 h)
      \<and> (\<exists>h \<in> set [''Name'', ''Claimant'']. tier3 h) \<longrightarrow>
      (\<exists>i. selectColumn [''Name'', ''Claimant''] = Some i
        \<and> firstMatch tier3 [''Name'', ''Claimant''] i)"
    using inst3 by (elim conjE)
  then have f3: "firstMatch tier3 [''Name'', ''Claimant''] 1"
    using t2(1) t3 s3 by auto
  have short: "length (parseCsvRows ''Claim #'') < 2" by code_simp
  have "length (parseCsvRows ''Claim #'') < 2 \<longrightarrow> parseCsv ''Claim #'' = Inl EmptyOrInvalidInput"
    using inst1 by (elim conjE)
  then have e: "parseCsv ''Claim #'' = Inl EmptyOrInvalidInput"
    using short by blast
  have rows: "parseCsvRows (''Name,Status'' @ [LF] @ ''Al,Open'') = [[''Name'', ''Status''], [''Al'', ''Open'']]"
    by code_simp
  have m: "matchesNoTier ''Name''" "matchesNoTier ''Status''" by code_simp+
  have "(\<exists>hs. parseCsv (''Name,Status'' @ [LF] @ ''Al,Open'') = Inl (MissingIdentifierColumn hs)) \<longleftrightarrow>
        2 \<le> length (parseCsvRows (''Name,Status'' @ [LF] @ ''Al,Open''))
        \<and> (\<forall>h \<in> set (hd (parseCsvRows (''Name,Status'' @ [LF] @ ''Al,Open''))). matchesNoTier h)"
    using inst2 by (elim conjE)
  then have "(\<exists>hs. parseCsv (''Name,Status'' @ [LF] @ ''Al,Open'') = Inl (MissingIdentifierColumn hs)) \<longleftrightarrow>
        2 \<le> length [[''Name'', ''Status''], [''Al'', ''Open'']]
        \<and> (\<forall>h \<in> set (hd [[''Name'', ''Status''], [''Al'', ''Open'']]). matchesNoTier h)"
    by (simp only: rows)
  then have x: "\<exists>hs. parseCsv (''Name,Status'' @ [LF] @ ''Al,Open'') = Inl (MissingIdentifierColumn hs)"
    using m by simp
  have "length [[''Name'', ''Status''], [''Al'', ''Open'']] = 2" by simp
  then have len: "2 \<le> length (parseCsvRows (''Name,Status'' @ [LF] @ ''Al,Open''))"
    by (simp only: rows)
  show ?thesis
    using t1 s1 f1 t2 s2 f2 t3 s3 f3 short e len m x by (intro conjI)
qed

text \<open>
  Claim C6 as stated names \<open>Claim Status\<close> as a header that tier 3 would accept: the
  exclusion list of tier 3 contains \<open>claim status\<close>, so tier 3 rejects it. It also says
  that \<open>MissingIdentifierColumn\<close> is the failure exactly when no header matches a tier: for
  the text \<open>Name\<close> the only header matches no tier, and the failure is
  \<open>EmptyOrInvalidInput\<close>, since there is one row.
\<close>

theorem column_selection_counterexample:
  "\<not> tier3 ''Claim Status''
   \<and> parseCsvRows ''Name'' = [[''Name'']] \<and> matchesNoTier ''Name''
   \<and> parseCsv ''Name'' = Inl EmptyOrInvalidInput"
  by code_simp

text \<open>
  Claim C4, as the code has it. When the tokenizer returns a header row and at least one
  data row, and a column is selected, \<open>parseCsv\<close> returns the identifiers in first-seen
  order without duplicates: the first occurrence of each distinct non-empty value found at
  the selected column is kept, later occurrences are dropped, a row with an empty value at
  the column is dropped, and the rows that have no column at the selected index are
  skipped and counted. Every claim returned records the index of a data row that holds
  its identifier at the selected column.
\<close>

theorem parseCsv_identifiers:
  assumes "parseCsvRows csvText = headers # dataRows" and "dataRows \<noteq> []"
    and "selectColumn headers = Some idx"
  shows "\<exists>claims. parseCsv csvText = Inr claims
     \<and> map fileNumber claims = firstSeen (filter (\<lambda>v. v \<noteq> []) (columnValues idx dataRows))
     \<and> distinct (map fileNumber claims)
     \<and> (\<forall>c \<in> set claims. 1 \<le> rowIndex c \<and> rowIndex c < length (parseCsvRows csvText)
           \<and> idx < length (parseCsvRows csvText ! rowIndex c)
           \<and> parseCsvRows csvText ! rowIndex c ! idx = fileNumber c)
     \<and> snd (collectClaims idx 1 dataRows {} [] 0)
         = length (filter (\<lambda>values. length values < idx + 1) dataRows)"
proof -
  define claims where "claims = fst (collectClaims idx 1 dataRows {} [] 0)"
  obtain r rs where dr: "dataRows = r # rs"
    using assms(2) by (cases dataRows) auto
  have p: "parseCsv csvText = Inr claims"
    using assms(1,3) by (simp add: parseCsv_def dr claimsOfRows_long claims_def)
  have n: "map fileNumber claims = firstSeen (filter (\<lambda>v. v \<noteq> []) (columnValues idx dataRows))"
    using collectClaims_numbers [of idx 1 dataRows "{}" "[]" 0] by (simp add: claims_def)
  have d: "distinct (map fileNumber claims)"
    unfolding n by (rule distinct_firstSeen)
  have rws: "1 \<le> rowIndex c \<and> rowIndex c < length (parseCsvRows csvText)
           \<and> idx < length (parseCsvRows csvText ! rowIndex c)
           \<and> parseCsvRows csvText ! rowIndex c ! idx = fileNumber c" if "c \<in> set claims" for c
  proof -
    have c: "1 \<le> rowIndex c \<and> rowIndex c < 1 + length dataRows
        \<and> idx < length (dataRows ! (rowIndex c - 1)) \<and> dataRows ! (rowIndex c - 1) ! idx = fileNumber c"
      using that collectClaims_rows [of c idx 1 dataRows "{}" "[]" 0] by (simp add: claims_def)
    then have "(headers # dataRows) ! rowIndex c = dataRows ! (rowIndex c - 1)"
      by (cases "rowIndex c") simp_all
    then show ?thesis using c assms(1) by simp
  qed
  have s: "snd (collectClaims idx 1 dataRows {} [] 0)
         = length (filter (\<lambda>values. length values < idx + 1) dataRows)"
    by (simp add: collectClaims_skipped)
  show ?thesis using p n d rws s by blast
qed


theorem parseCsv_identifiers_witness:
  "parseCsvRows (''Name,Claim #'' @ [LF] @ ''Bob'' @ [LF] @ ''Al,7'' @ [LF] @ ''Cy,''
       @ [LF] @ ''Di,7'' @ [LF] @ ''Ed,8'')
     = [''Name'', ''Claim #''] # [[''Bob''], [''Al'', ''7''], [''Cy'', []], [''Di'', ''7''], [''Ed'', ''8'']]
   \<and> selectColumn [''Name'', ''Claim #''] = Some 1
   \<and> parseCsv (''Name,Claim #'' @ [LF] @ ''Bob'' @ [LF] @ ''Al,7'' @ [LF] @ ''Cy,''
       @ [LF] @ ''Di,7'' @ [LF] @ ''Ed,8'')
     = Inr [\<lparr>fileNumber = ''7'', rowIndex = 2\<rparr>, \<lparr>fileNumber = ''8'', rowIndex = 5\<rparr>]
   \<and> firstSeen (filter (\<lambda>v. v \<noteq> [])
        (columnValues 1 [[''Bob''], [''Al'', ''7''], [''Cy'', []], [''Di'', ''7''], [''Ed'', ''8'']]))
     = [''7'', ''8'']
   \<and> snd (collectClaims 1 1 [[''Bob''], [''Al'', ''7''], [''Cy'', []], [''Di'', ''7''], [''Ed'', ''8'']]
        {} [] 0) = 1"
proof -
  let ?t = "''Name,Claim #'' @ [LF] @ ''Bob'' @ [LF] @ ''Al,7'' @ [LF] @ ''Cy,''
       @ [LF] @ ''Di,7'' @ [LF] @ ''Ed,8''"
  let ?d = "[[''Bob''], [''Al'', ''7''], [''Cy'', []], [''Di'', ''7''], [''Ed'', ''8'']]"
  have rows: "parseCsvRows ?t = [''Name'', ''Claim #''] # ?d"
    by code_simp
  have ne: "?d \<noteq> []" by simp
  have sel: "selectColumn [''Name'', ''Claim #''] = Some 1"
    by code_simp
  have fs: "firstSeen (filter (\<lambda>v. v \<noteq> []) (columnValues 1 ?d)) = [''7'', ''8'']"
    by code_simp
  have res: "parseCsv ?t = Inr [\<lparr>fileNumber = ''7'', rowIndex = 2\<rparr>, \<lparr>fileNumber = ''8'', rowIndex = 5\<rparr>]"
    by code_simp
  have "snd (collectClaims 1 1 ?d {} [] 0)
      = length (filter (\<lambda>values. length values < 1 + 1) ?d)"
    using parseCsv_identifiers [OF rows ne sel] by blast
  then have "snd (collectClaims 1 1 ?d {} [] 0) = 1"
    by simp
  then show ?thesis using rows sel fs res by simp
qed

text \<open>
  Claim C4 as stated keeps the first occurrence of every distinct value of the column. An
  empty value is a value of the column, and the code drops it: in the text below the first
  data row has both columns and an empty identifier.
\<close>

theorem parseCsv_empty_identifier_counterexample:
  "parseCsvRows (''Claim #,Name'' @ [LF] @ '',Bob'' @ [LF] @ ''7,Al'')
     = [[''Claim #'', ''Name''], [[], ''Bob''], [''7'', ''Al'']]
   \<and> selectColumn [''Claim #'', ''Name''] = Some 0
   \<and> parseCsv (''Claim #,Name'' @ [LF] @ '',Bob'' @ [LF] @ ''7,Al'')
     = Inr [\<lparr>fileNumber = ''7'', rowIndex = 2\<rparr>]
   \<and> firstSeen (columnValues 0 [[[], ''Bob''], [''7'', ''Al'']]) = [[], ''7'']"
  by code_simp

section \<open>Verification of the file listing\<close>

lemma fetchAllFiles_deep:
  "depth > maxDepth \<Longrightarrow> fetchAllFiles api cid folderKey depth w = ([], w)"
  by simp

lemma fetchAllFiles_unfold:
  assumes "depth \<le> maxDepth"
  shows "fetchAllFiles api cid folderKey depth w =
     (case api w cid folderKey of
        (ListingFailed e, w1) \<Rightarrow> ([], w1)
      | (NotAnArray, w1) \<Rightarrow> ([], w1)
      | (Items filesResponse, w1) \<Rightarrow>
          fold (visitItem api cid (depth + 1)) filesResponse ([], w1))"
proof -
  have eq: "(\<lambda>item acc.
                     if descends item then
                       (let r = fetchAllFiles api cid (Some (key item)) (depth + 1) (snd acc)
                        in (fst acc @ fst r, snd r))
                     else if collects item then (fst acc @ [item], snd acc)
                     else acc) = visitItem api cid (depth + 1)"
    by (intro ext) (simp add: visitItem_def)
  have "fetchAllFiles api cid folderKey depth w =
     (if depth > maxDepth then ([], w)
      else
        (case api w cid folderKey of
           (ListingFailed e, w1) \<Rightarrow> ([], w1)
         | (NotAnArray, w1) \<Rightarrow> ([], w1)
         | (Items filesResponse, w1) \<Rightarrow>
             fold (visitItem api cid (depth + 1)) filesResponse ([], w1)))"
    by (subst fetchAllFiles.simps, subst eq) (rule refl)
  moreover have "\<not> depth > maxDepth" using assms by simp
  ultimately show ?thesis by (simp only: if_False)
qed

declare fetchAllFiles.simps [simp del]

lemma fold_visit_inv:
  assumes step: "\<And>item w. item \<in> set items \<Longrightarrow> descends item \<Longrightarrow>
      P (fst (fetchAllFiles api cid (Some (key item)) depth w))"
    and app: "\<And>xs ys. P xs \<Longrightarrow> P ys \<Longrightarrow> P (xs @ ys)"
    and one: "\<And>item. collects item \<Longrightarrow> P [item]"
    and acc: "P (fst acc)"
  shows "P (fst (fold (visitItem api cid depth) items acc))"
  using step acc
proof (induction items arbitrary: acc)
  case Nil
  then show ?case by simp
next
  case (Cons item items)
  have "P (fst (visitItem api cid depth item acc))"
    using Cons.prems(1) [of item "snd acc"] Cons.prems(2) app one
    by (simp add: visitItem_def Let_def)
  then show ?case using Cons.IH [of "visitItem api cid depth item acc"] Cons.prems(1) by simp
qed

lemma fetchAllFiles_collects_aux:
  "Suc maxDepth - depth \<le> n \<Longrightarrow>
   \<forall>f \<in> set (fst (fetchAllFiles api cid folderKey depth w)). collects f"
proof (induction n arbitrary: depth folderKey w)
  case 0
  then have "depth > maxDepth" by simp
  then show ?case by (simp add: fetchAllFiles_deep)
next
  case (Suc n)
  show ?case
  proof (cases "depth > maxDepth")
    case True
    then show ?thesis by (simp add: fetchAllFiles_deep)
  next
    case False
    then have le: "depth \<le> maxDepth" by simp
    have rec: "\<forall>f \<in> set (fst (fetchAllFiles api cid fk (depth + 1) w')). collects f" for fk w'
      using Suc.prems le by (intro Suc.IH) simp
    have "\<forall>f \<in> set (fst (fold (visitItem api cid (depth + 1)) items ([], w1))). collects f"
      for items w1
      by (rule fold_visit_inv [where P = "\<lambda>xs. \<forall>f \<in> set xs. collects f"]) (use rec in auto)
    then show ?thesis
      by (simp add: fetchAllFiles_unfold [OF le] split: prod.split listing.split)
  qed
qed

lemma fetchAllFiles_collects:
  "\<forall>f \<in> set (fst (fetchAllFiles api cid folderKey depth w)). collects f"
  using fetchAllFiles_collects_aux [of depth "Suc maxDepth - depth"] by simp

lemma callsFrom_step: "depth \<le> maxDepth \<Longrightarrow> 1 + b * callsFrom b (depth + 1) = callsFrom b depth"
proof (cases "depth = maxDepth")
  case True
  then show ?thesis by (simp add: callsFrom_def)
next
  case False
  assume "depth \<le> maxDepth"
  then have "maxDepth - depth = Suc (maxDepth - (depth + 1))" using False by simp
  then show ?thesis using False \<open>depth \<le> maxDepth\<close> by (simp add: callsFrom_def)
qed

lemma fold_visit_requests:
  fixes capi :: "('w \<times> nat, 'j) filesApi"
  assumes "\<And>item s.
      requests (fetchAllFiles capi cid (Some (key (item :: 'j fileItem))) depth s) \<le> snd s + B"
  shows "requests (fold (visitItem capi cid depth) items acc)
           \<le> requests acc + length (filter descends items) * B"
proof (induction items arbitrary: acc)
  case Nil
  then show ?case by simp
next
  case (Cons item items)
  have "requests (visitItem capi cid depth item acc)
      \<le> requests acc + (if descends item then B else 0)"
    using assms [of item "snd acc"] by (simp add: visitItem_def Let_def requests_def)
  moreover have "requests (fold (visitItem capi cid depth) (item # items) acc)
      = requests (fold (visitItem capi cid depth) items (visitItem capi cid depth item acc))"
    by simp
  moreover have "length (filter descends (item # items)) * B
      = (if descends item then B else 0) + length (filter descends items) * B"
    by simp
  ultimately show ?case
    using Cons [of "visitItem capi cid depth item acc"] by linarith
qed

lemma fetchAllFiles_requests_aux:
  assumes "branching api b"
  shows "Suc maxDepth - depth \<le> n \<Longrightarrow>
     requests (fetchAllFiles (counting api) cid folderKey depth s) \<le> snd s + callsFrom b depth"
proof (induction n arbitrary: depth folderKey s)
  case 0
  then have "depth > maxDepth" by simp
  then show ?case by (simp add: fetchAllFiles_deep requests_def)
next
  case (Suc n)
  show ?case
  proof (cases "depth > maxDepth")
    case True
    then show ?thesis by (simp add: fetchAllFiles_deep requests_def)
  next
    case False
    then have le: "depth \<le> maxDepth" by simp
    obtain w k where s: "s = (w, k)" by (cases s)
    have rec: "requests (fetchAllFiles (counting api) cid (Some (key item)) (depth + 1) s')
        \<le> snd s' + callsFrom b (depth + 1)" for item :: "'b fileItem" and s'
      using Suc.prems le by (intro Suc.IH) simp
    have ans: "counting api (w, k) cid folderKey
        = (fst (api w cid folderKey), (snd (api w cid folderKey), Suc k))"
      by (simp add: counting_def)
    show ?thesis
    proof (cases "fst (api w cid folderKey)")
      case (ListingFailed e)
      then show ?thesis
        using callsFrom_step [OF le, of b]
        by (simp add: fetchAllFiles_unfold [OF le] ans requests_def s)
    next
      case NotAnArray
      then show ?thesis
        using callsFrom_step [OF le, of b]
        by (simp add: fetchAllFiles_unfold [OF le] ans requests_def s)
    next
      case (Items items)
      have "case fst (api w cid folderKey) of
              Items filesResponse \<Rightarrow> length (filter descends filesResponse) \<le> b
            | _ \<Rightarrow> True"
        using assms unfolding branching_def by blast
      then have "length (filter descends items) \<le> b"
        using Items by simp
      then have "length (filter descends items) * callsFrom b (depth + 1) \<le> b * callsFrom b (depth + 1)"
        by simp
      moreover have "requests (fold (visitItem (counting api) cid (depth + 1)) items
            ([], (snd (api w cid folderKey), Suc k)))
          \<le> Suc k + length (filter descends items) * callsFrom b (depth + 1)"
        using fold_visit_requests [of "counting api" cid "depth + 1" "callsFrom b (depth + 1)"
            items "([], (snd (api w cid folderKey), Suc k))"] rec
        by (simp add: requests_def)
      moreover have "requests (fetchAllFiles (counting api) cid folderKey depth s)
          = requests (fold (visitItem (counting api) cid (depth + 1)) items
            ([], (snd (api w cid folderKey), Suc k)))"
        using Items by (simp add: fetchAllFiles_unfold [OF le] ans s)
      moreover have "snd s = k" by (simp add: s)
      ultimately show ?thesis
        using callsFrom_step [OF le, of b] by linarith
    qed
  qed
qed

lemma fetchAllFiles_requests:
  "branching api b \<Longrightarrow>
   requests (fetchAllFiles (counting api) cid folderKey depth (w, k)) \<le> k + callsFrom b depth"
  using fetchAllFiles_requests_aux [of api b depth "Suc maxDepth - depth" cid folderKey "(w, k)"]
  by simp

text \<open>
  Claim C9. \<open>fetchAllFiles\<close> is a total function: its recursion is accepted with the
  measure \<open>maxDepth + 1 - depth\<close>, whatever the remote answers, cyclic structures included.
  The maximum depth is 5; a call deeper than that returns the empty list without a
  request; a call within the depth makes one request, returns the empty list when the
  request fails or does not give an array, and otherwise visits the entries in order,
  calling itself at \<open>depth + 1\<close> exactly on the folders with children whose key is not empty
  and not \<open>ATTACHMENTS\<close>, and collecting the entries that are not folders and have a file
  name. Every entry returned is such a non-folder entry, and when no listing has more than
  \<open>b\<close> folders to descend into, the walk makes at most \<open>1 + b + ... + b^(maxDepth - depth)\<close>
  requests.
\<close>

theorem fetchAllFiles_bounded_walk:
  "maxDepth = 5
   \<and> (depth > maxDepth \<longrightarrow> fetchAllFiles api cid folderKey depth w = ([], w))
   \<and> (depth \<le> maxDepth \<longrightarrow>
        fetchAllFiles api cid folderKey depth w =
          (case api w cid folderKey of
             (ListingFailed e, w1) \<Rightarrow> ([], w1)
           | (NotAnArray, w1) \<Rightarrow> ([], w1)
           | (Items filesResponse, w1) \<Rightarrow>
               fold (visitItem api cid (depth + 1)) filesResponse ([], w1)))
   \<and> (descends item \<longrightarrow>
        visitItem api cid d item acc =
          (fst acc @ fst (fetchAllFiles api cid (Some (key item)) d (snd acc)),
           snd (fetchAllFiles api cid (Some (key item)) d (snd acc))))
   \<and> (\<not> descends item \<longrightarrow>
        visitItem api cid d item acc
          = (if \<not> folder item \<and> filename item \<noteq> [] then (fst acc @ [item], snd acc) else acc))
   \<and> (descends item \<longleftrightarrow>
        folder item \<and> hasChildren item \<and> key item \<noteq> [] \<and> key item \<noteq> ''ATTACHMENTS'')
   \<and> (\<forall>f \<in> set (fst (fetchAllFiles api cid folderKey depth w)).
        \<not> folder f \<and> filename f \<noteq> [])
   \<and> (branching api b \<longrightarrow>
        requests (fetchAllFiles (counting api) cid folderKey depth (w, k))
          \<le> k + callsFrom b depth)"
proof (intro conjI impI)
  show "maxDepth = 5" by (simp add: maxDepth_def)
  show "fetchAllFiles api cid folderKey depth w = ([], w)" if "depth > maxDepth"
    using that by (rule fetchAllFiles_deep)
  show "fetchAllFiles api cid folderKey depth w =
          (case api w cid folderKey of
             (ListingFailed e, w1) \<Rightarrow> ([], w1)
           | (NotAnArray, w1) \<Rightarrow> ([], w1)
           | (Items filesResponse, w1) \<Rightarrow>
               fold (visitItem api cid (depth + 1)) filesResponse ([], w1))"
    if "depth \<le> maxDepth"
    using that by (rule fetchAllFiles_unfold)
  show "visitItem api cid d item acc =
          (fst acc @ fst (fetchAllFiles api cid (Some (key item)) d (snd acc)),
           snd (fetchAllFiles api cid (Some (key item)) d (snd acc)))"
    if "descends item"
    using that by (simp add: visitItem_def Let_def)
  show "visitItem api cid d item acc
          = (if \<not> folder item \<and> filename item \<noteq> [] then (fst acc @ [item], snd acc) else acc)"
    if "\<not> descends item"
    using that by (simp add: visitItem_def collects_def)
  show "descends item \<longleftrightarrow>
        folder item \<and> hasChildren item \<and> key item \<noteq> [] \<and> key item \<noteq> ''ATTACHMENTS''"
    by (simp add: descends_def)
  show "\<forall>f \<in> set (fst (fetchAllFiles api cid folderKey depth w)).
        \<not> folder f \<and> filename f \<noteq> []"
    using fetchAllFiles_collects [of api cid folderKey depth w] by (simp add: collects_def)
  show "requests (fetchAllFiles (counting api) cid folderKey depth (w, k))
          \<le> k + callsFrom b depth"
    if "branching api b"
    using that by (rule fetchAllFiles_requests)
qed

theorem fetchAllFiles_bounded_walk_witness:
  "6 > maxDepth \<and> fetchAllFiles cyclicRemote ''c'' (Some ''A'') 6 () = ([], ())
   \<and> 0 \<le> maxDepth
   \<and> fetchAllFiles cyclicRemote ''c'' None 0 () = ([fileB, fileB, fileB, fileB, fileB, fileB], ())
   \<and> descends folderA \<and> \<not> descends fileB
   \<and> visitItem cyclicRemote ''c'' 6 folderA ([], ()) = ([], ())
   \<and> visitItem cyclicRemote ''c'' 6 fileB ([], ()) = ([fileB], ())
   \<and> branching cyclicRemote 1
   \<and> requests (fetchAllFiles (counting cyclicRemote) ''c'' None 0 ((), 0)) = 6
   \<and> callsFrom 1 0 = 6"
proof -
  note deep = fetchAllFiles_bounded_walk [of 6 cyclicRemote "''c''" "Some ''A''" "()" folderA 6
      "([], ())" 1 0]
  note root = fetchAllFiles_bounded_walk [of 0 cyclicRemote "''c''" None "()" fileB 6
      "([], ())" 1 0]
  have d: "6 > maxDepth" by (simp add: maxDepth_def)
  then have e: "fetchAllFiles cyclicRemote ''c'' (Some ''A'') 6 () = ([], ())"
    using deep by blast
  have da: "descends folderA" and db: "\<not> descends fileB"
    by code_simp+
  have va: "visitItem cyclicRemote ''c'' 6 folderA ([], ()) = ([], ())"
    using deep da e by (simp add: folderA_def)
  have vb: "visitItem cyclicRemote ''c'' 6 fileB ([], ()) = ([fileB], ())"
    using root db by (simp add: fileB_def)
  have br: "branching cyclicRemote 1"
    by (simp add: branching_def cyclicRemote_def descends_def folderA_def fileB_def)
  then have le: "requests (fetchAllFiles (counting cyclicRemote) ''c'' None 0 ((), 0)) \<le> 0 + callsFrom 1 0"
    using root by blast
  have c: "callsFrom 1 0 = 6" by code_simp
  have r: "requests (fetchAllFiles (counting cyclicRemote) ''c'' None 0 ((), 0)) = 6"
    by code_simp
  have f: "fetchAllFiles cyclicRemote ''c'' None 0 () = ([fileB, fileB, fileB, fileB, fileB, fileB], ())"
    by code_simp
  show ?thesis using d e da db va vb br c r f by simp
qed

section \<open>Verification of the claim fetcher\<close>

lemma fetchClaimDetails_found:
  assumes "search r (fileNumber claim) = SearchBody (Some (ci # others))"
  shows "fetchClaimDetails r claim =
    (case claimApi r (infoUuid ci) of
       Inl e \<Rightarrow> Inl e
     | Inr fd \<Rightarrow> Inr (fanOut r (withDetails fd (initialResult (fileNumber claim) ci))))"
  using assms by (simp add: fetchClaimDetails_def)

lemma withDetails_ids:
  "resultFileNumber (withDetails fd res) = resultFileNumber res"
  "claimId (withDetails fd res) = claimId res"
  "claimUuid (withDetails fd res) = claimUuid res"
  "claimDetails (withDetails fd res) = claimDetails res"
  by (cases fd; simp add: withDetails_def)+

lemma withDetails_fields:
  "fullClaimData (withDetails fd (initialResult fn ci)) = map_option document fd"
  "contacts (withDetails fd (initialResult fn ci))
     = (case fd of None \<Rightarrow> None | Some d \<Rightarrow> map_option contactsOf (detailContacts d))"
  "personnel (withDetails fd (initialResult fn ci))
     = (case fd of None \<Rightarrow> None | Some d \<Rightarrow> detailPersonnel d)"
  "phases (withDetails fd (initialResult fn ci))
     = (case fd of None \<Rightarrow> None | Some d \<Rightarrow> detailPhases d)"
  by (cases fd; simp add: withDetails_def initialResult_def)+

lemma fanOut_keeps:
  "resultFileNumber (fanOut r res) = resultFileNumber res"
  "claimId (fanOut r res) = claimId res"
  "claimUuid (fanOut r res) = claimUuid res"
  "claimDetails (fanOut r res) = claimDetails res"
  "fullClaimData (fanOut r res) = fullClaimData res"
  "contacts (fanOut r res) = contacts res"
  "personnel (fanOut r res) = personnel res"
  "phases (fanOut r res) = phases res"
  by (simp_all add: fanOut_def Let_def)

lemma fanOut_fields:
  "insurance (fanOut r res) = settled (insuranceApi r (claimId res))"
  "mortgages (fanOut r res) = settled (mortgagesApi r (claimId res))"
  "externalPersonnel (fanOut r res) = settled (externalApi r (claimId res))"
  "actionItems (fanOut r res) = settled (actionsApi r (claimUuid res))"
  "ledger (fanOut r res) = map_option ledgerOf (settled (ledgerApi r (claimId res)))"
  "ledgerNotes (fanOut r res) = map_option notesOf (settled (ledgerApi r (claimId res)))"
  "ledgerInvoices (fanOut r res) = map_option invoicesOf (settled (ledgerApi r (claimId res)))"
  "files (fanOut r res) =
     (if filesOf r (claimId res) = [] then None
      else Some (map (toFileEntry (claimUuid res)) (filesOf r (claimId res))))"
  "claimNotes (fanOut r res) = settled (notesApi r (claimId res))"
  "activity (fanOut r res) = settled (activityApi r (claimUuid res))"
  by (simp_all add: fanOut_def Let_def)

lemma initialResult_ids:
  "resultFileNumber (initialResult fn ci) = fn"
  "claimId (initialResult fn ci) = infoId ci"
  "claimUuid (initialResult fn ci) = infoUuid ci"
  "claimDetails (initialResult fn ci) = info ci"
  by (simp_all add: initialResult_def)

lemma fetchClaimDetails_returns:
  assumes "search r (fileNumber claim) = SearchBody (Some (ci # others))"
    and "claimApi r (infoUuid ci) = Inr fd"
  shows "\<exists>res. fetchClaimDetails r claim = Inr res
     \<and> resultFileNumber res = fileNumber claim \<and> claimId res = infoId ci
     \<and> claimUuid res = infoUuid ci \<and> claimDetails res = info ci
     \<and> fullClaimData res = map_option document fd
     \<and> contacts res = (case fd of None \<Rightarrow> None | Some d \<Rightarrow> map_option contactsOf (detailContacts d))
     \<and> personnel res = (case fd of None \<Rightarrow> None | Some d \<Rightarrow> detailPersonnel d)
     \<and> phases res = (case fd of None \<Rightarrow> None | Some d \<Rightarrow> detailPhases d)
     \<and> insurance res = settled (insuranceApi r (infoId ci))
     \<and> mortgages res = settled (mortgagesApi r (infoId ci))
     \<and> externalPersonnel res = settled (externalApi r (infoId ci))
     \<and> actionItems res = settled (actionsApi r (infoUuid ci))
     \<and> ledger res = map_option ledgerOf (settled (ledgerApi r (infoId ci)))
     \<and> ledgerNotes res = map_option notesOf (settled (ledgerApi r (infoId ci)))
     \<and> ledgerInvoices res = map_option invoicesOf (settled (ledgerApi r (infoId ci)))
     \<and> files res = (if filesOf r (infoId ci) = [] then None
                     else Some (map (toFileEntry (infoUuid ci)) (filesOf r (infoId ci))))
     \<and> claimNotes res = settled (notesApi r (infoId ci))
     \<and> activity res = settled (activityApi r (infoUuid ci))"
proof -
  let ?res = "fanOut r (withDetails fd (initialResult (fileNumber claim) ci))"
  have "fetchClaimDetails r claim = Inr ?res"
    using fetchClaimDetails_found [OF assms(1)] assms(2) by simp
  then show ?thesis
    by (intro exI [of _ ?res])
      (simp add: fanOut_keeps fanOut_fields withDetails_ids withDetails_fields initialResult_ids)
qed


text \<open>
  Claim C3, as the code has it. \<open>fetchClaimDetails\<close> throws when the search call is
  rejected, is not OK or has an unreadable body, when the search finds no claim, and when
  the call for the full claim document fails. When the search finds a claim and the
  document call returns, it returns a record whatever the eight concurrent calls do: a
  call that fails, or whose value has not the expected shape, only leaves its field out,
  and no \<open>error\<close> field is set. The \<open>catch\<close> of the driver loop, its caller, turns a thrown
  error into the record of the claim's fields with the error.
\<close>

theorem fetchClaimDetails_outcomes:
  "(search r (fileNumber claim) = SearchRejected m \<longrightarrow>
      fetchClaimDetails r claim = Inl (NetworkError m))
   \<and> (search r (fileNumber claim) = SearchNotOk st \<longrightarrow>
      fetchClaimDetails r claim = Inl (SearchFailed st))
   \<and> (search r (fileNumber claim) = SearchBodyInvalid m \<longrightarrow>
      fetchClaimDetails r claim = Inl (NetworkError m))
   \<and> (search r (fileNumber claim) = SearchBody None
        \<or> search r (fileNumber claim) = SearchBody (Some []) \<longrightarrow>
      fetchClaimDetails r claim = Inl (ClaimNotFound (fileNumber claim)))
   \<and> (search r (fileNumber claim) = SearchBody (Some (ci # others))
        \<and> claimApi r (infoUuid ci) = Inl e \<longrightarrow>
      fetchClaimDetails r claim = Inl e)
   \<and> (search r (fileNumber claim) = SearchBody (Some (ci # others))
        \<and> claimApi r (infoUuid ci) = Inr fd \<longrightarrow>
      (\<exists>res. fetchClaimDetails r claim = Inr res
         \<and> resultFileNumber res = fileNumber claim \<and> claimId res = infoId ci
         \<and> claimUuid res = infoUuid ci \<and> claimDetails res = info ci
         \<and> fullClaimData res = map_option document fd
         \<and> contacts res = (case fd of None \<Rightarrow> None | Some d \<Rightarrow> map_option contactsOf (detailContacts d))
         \<and> personnel res = (case fd of None \<Rightarrow> None | Some d \<Rightarrow> detailPersonnel d)
         \<and> phases res = (case fd of None \<Rightarrow> None | Some d \<Rightarrow> detailPhases d)
         \<and> insurance res = settled (insuranceApi r (infoId ci))
         \<and> mortgages res = settled (mortgagesApi r (infoId ci))
         \<and> externalPersonnel res = settled (externalApi r (infoId ci))
         \<and> actionItems res = settled (actionsApi r (infoUuid ci))
         \<and> ledger res = map_option ledgerOf (settled (ledgerApi r (infoId ci)))
         \<and> ledgerNotes res = map_option notesOf (settled (ledgerApi r (infoId ci)))
         \<and> ledgerInvoices res = map_option invoicesOf (settled (ledgerApi r (infoId ci)))
         \<and> files res = (if filesOf r (infoId ci) = [] then None
                         else Some (map (toFileEntry (infoUuid ci)) (filesOf r (infoId ci))))
         \<and> claimNotes res = settled (notesApi r (infoId ci))
         \<and> activity res = settled (activityApi r (infoUuid ci))))
   \<and> settled (Inl e' :: error + 'a option) = None
   \<and> settled (Inr v :: error + 'a option) = v
   \<and> (fetchClaimDetails r claim = Inl e \<longrightarrow>
        catchFetch claim (fetchClaimDetails r claim) = FetchError claim e)
   \<and> (fetchClaimDetails r claim = Inr res' \<longrightarrow>
        catchFetch claim (fetchClaimDetails r claim) = Fetched res')"
proof (intro conjI impI)
  show "fetchClaimDetails r claim = Inl (NetworkError m)"
    if "search r (fileNumber claim) = SearchRejected m"
    using that by (simp add: fetchClaimDetails_def)
  show "fetchClaimDetails r claim = Inl (SearchFailed st)"
    if "search r (fileNumber claim) = SearchNotOk st"
    using that by (simp add: fetchClaimDetails_def)
  show "fetchClaimDetails r claim = Inl (NetworkError m)"
    if "search r (fileNumber claim) = SearchBodyInvalid m"
    using that by (simp add: fetchClaimDetails_def)
  show "fetchClaimDetails r claim = Inl (ClaimNotFound (fileNumber claim))"
    if "search r (fileNumber claim) = SearchBody None
        \<or> search r (fileNumber claim) = SearchBody (Some [])"
    using that by (auto simp: fetchClaimDetails_def)
  show "fetchClaimDetails r claim = Inl e"
    if "search r (fileNumber claim) = SearchBody (Some (ci # others))
        \<and> claimApi r (infoUuid ci) = Inl e"
    using that fetchClaimDetails_found [of r claim ci others] by simp
  show "\<exists>res. fetchClaimDetails r claim = Inr res
         \<and> resultFileNumber res = fileNumber claim \<and> claimId res = infoId ci
         \<and> claimUuid res = infoUuid ci \<and> claimDetails res = info ci
         \<and> fullClaimData res = map_option document fd
         \<and> contacts res = (case fd of None \<Rightarrow> None | Some d \<Rightarrow> map_option contactsOf (detailContacts d))
         \<and> personnel res = (case fd of None \<Rightarrow> None | Some d \<Rightarrow> detailPersonnel d)
         \<and> phases res = (case fd of None \<Rightarrow> None | Some d \<Rightarrow> detailPhases d)
         \<and> insurance res = settled (insuranceApi r (infoId ci))
         \<and> mortgages res = settled (mortgagesApi r (infoId ci))
         \<and> externalPersonnel res = settled (externalApi r (infoId ci))
         \<and> actionItems res = settled (actionsApi r (infoUuid ci))
         \<and> ledger res = map_option ledgerOf (settled (ledgerApi r (infoId ci)))
         \<and> ledgerNotes res = map_option notesOf (settled (ledgerApi r (infoId ci)))
         \<and> ledgerInvoices res = map_option invoicesOf (settled (ledgerApi r (infoId ci)))
         \<and> files res = (if filesOf r (infoId ci) = [] then None
                         else Some (map (toFileEntry (infoUuid ci)) (filesOf r (infoId ci))))
         \<and> claimNotes res = settled (notesApi r (infoId ci))
         \<and> activity res = settled (activityApi r (infoUuid ci))"
    if "search r (fileNumber claim) = SearchBody (Some (ci # others))
        \<and> claimApi r (infoUuid ci) = Inr fd"
    using that fetchClaimDetails_returns [of r claim ci others fd] by blast
  show "settled (Inl e' :: error + 'a option) = None" by (simp add: settled_def)
  show "settled (Inr v :: error + 'a option) = v" by (simp add: settled_def)
  show "catchFetch claim (fetchClaimDetails r claim) = FetchError claim e"
    if "fetchClaimDetails r claim = Inl e"
    using that by (simp add: catchFetch_def)
  show "catchFetch claim (fetchClaimDetails r claim) = Fetched res'"
    if "fetchClaimDetails r claim = Inr res'"
    using that by (simp add: catchFetch_def)
qed

theorem fetchClaimDetails_outcomes_witness:
  "search rejectedRemote (fileNumber claimF1) = SearchRejected ''Failed to fetch''
   \<and> fetchClaimDetails rejectedRemote claimF1 = Inl (NetworkError ''Failed to fetch'')
   \<and> catchFetch claimF1 (fetchClaimDetails rejectedRemote claimF1)
       = FetchError claimF1 (NetworkError ''Failed to fetch'')
   \<and> search downRemote (fileNumber claimF1) = SearchNotOk 500
   \<and> fetchClaimDetails downRemote claimF1 = Inl (SearchFailed 500)
   \<and> search garbledRemote (fileNumber claimF1) = SearchBodyInvalid ''Unexpected token''
   \<and> fetchClaimDetails garbledRemote claimF1 = Inl (NetworkError ''Unexpected token'')
   \<and> search noBodyRemote (fileNumber claimF1) = SearchBody None
   \<and> fetchClaimDetails noBodyRemote claimF1 = Inl (ClaimNotFound ''F-1'')
   \<and> search quietRemote (fileNumber claimF1) = SearchBody (Some [])
   \<and> fetchClaimDetails quietRemote claimF1 = Inl (ClaimNotFound ''F-1'')
   \<and> search detailDownRemote (fileNumber claimF1) = SearchBody (Some [claim7])
   \<and> claimApi detailDownRemote (infoUuid claim7) = Inl (ApiCallFailed 503 ''Service Unavailable'')
   \<and> fetchClaimDetails detailDownRemote claimF1 = Inl (ApiCallFailed 503 ''Service Unavailable'')
   \<and> search partialRemote (fileNumber claimF1) = SearchBody (Some [claim7])
   \<and> claimApi partialRemote (infoUuid claim7) = Inr None
   \<and> insuranceApi partialRemote ''7'' = Inl (ApiCallFailed 500 ''Internal Server Error'')
   \<and> fetchClaimDetails partialRemote claimF1
       = Inr \<lparr>resultFileNumber = ''F-1'', claimId = ''7'', claimUuid = ''u-7'',
              claimDetails = (), fullClaimData = None, contacts = None,
              personnel = None, phases = None, insurance = None,
              mortgages = Some [()], externalPersonnel = None, actionItems = None,
              ledger = None, ledgerNotes = None, ledgerInvoices = None,
              files = None, claimNotes = None, activity = None\<rparr>
   \<and> catchFetch claimF1 (fetchClaimDetails partialRemote claimF1)
       = Fetched \<lparr>resultFileNumber = ''F-1'', claimId = ''7'', claimUuid = ''u-7'',
              claimDetails = (), fullClaimData = None, contacts = None,
              personnel = None, phases = None, insurance = None,
              mortgages = Some [()], externalPersonnel = None, actionItems = None,
              ledger = None, ledgerNotes = None, ledgerInvoices = None,
              files = None, claimNotes = None, activity = None\<rparr>"
proof -
  let ?res = "\<lparr>resultFileNumber = ''F-1'', claimId = ''7'', claimUuid = ''u-7'',
              claimDetails = (), fullClaimData = None, contacts = None,
              personnel = None, phases = None, insurance = None,
              mortgages = Some [()], externalPersonnel = None, actionItems = None,
              ledger = None, ledgerNotes = None, ledgerInvoices = None,
              files = None, claimNotes = None, activity = None\<rparr> :: unit claimResult"
  have s1: "search rejectedRemote (fileNumber claimF1) = SearchRejected ''Failed to fetch''"
    by code_simp
  have f1: "fetchClaimDetails rejectedRemote claimF1 = Inl (NetworkError ''Failed to fetch'')"
    using s1 fetchClaimDetails_outcomes [of rejectedRemote claimF1 "''Failed to fetch''"] by blast
  have c1: "catchFetch claimF1 (fetchClaimDetails rejectedRemote claimF1)
       = FetchError claimF1 (NetworkError ''Failed to fetch'')"
    using f1 fetchClaimDetails_outcomes [of rejectedRemote claimF1 _ _ _ _ "NetworkError ''Failed to fetch''"]
    by blast
  have s2: "search downRemote (fileNumber claimF1) = SearchNotOk 500"
    by code_simp
  have f2: "fetchClaimDetails downRemote claimF1 = Inl (SearchFailed 500)"
    using s2 fetchClaimDetails_outcomes [of downRemote claimF1 _ 500] by blast
  have s3: "search garbledRemote (fileNumber claimF1) = SearchBodyInvalid ''Unexpected token''"
    by code_simp
  have f3: "fetchClaimDetails garbledRemote claimF1 = Inl (NetworkError ''Unexpected token'')"
    using s3 fetchClaimDetails_outcomes [of garbledRemote claimF1 "''Unexpected token''"] by blast
  have fn: "fileNumber claimF1 = ''F-1''" by (simp add: claimF1_def)
  have s4: "search noBodyRemote (fileNumber claimF1) = SearchBody None"
    by code_simp
  have f4: "fetchClaimDetails noBodyRemote claimF1 = Inl (ClaimNotFound ''F-1'')"
    using s4 fetchClaimDetails_outcomes [of noBodyRemote claimF1] unfolding fn by blast
  have s5: "search quietRemote (fileNumber claimF1) = SearchBody (Some [])"
    by code_simp
  have f5: "fetchClaimDetails quietRemote claimF1 = Inl (ClaimNotFound ''F-1'')"
    using s5 fetchClaimDetails_outcomes [of quietRemote claimF1] unfolding fn by blast
  have s6: "search detailDownRemote (fileNumber claimF1) = SearchBody (Some [claim7])"
    and d6: "claimApi detailDownRemote (infoUuid claim7) = Inl (ApiCallFailed 503 ''Service Unavailable'')"
    by code_simp+
  have f6: "fetchClaimDetails detailDownRemote claimF1 = Inl (ApiCallFailed 503 ''Service Unavailable'')"
    using s6 d6 fetchClaimDetails_outcomes [of detailDownRemote claimF1 _ _ claim7 "[]"
        "ApiCallFailed 503 ''Service Unavailable''"]
    by blast
  have s7: "search partialRemote (fileNumber claimF1) = SearchBody (Some [claim7])"
    and d7: "claimApi partialRemote (infoUuid claim7) = Inr None"
    and i7: "insuranceApi partialRemote ''7'' = Inl (ApiCallFailed 500 ''Internal Server Error'')"
    by code_simp+
  have "\<exists>res. fetchClaimDetails partialRemote claimF1 = Inr res"
    using s7 d7 fetchClaimDetails_outcomes [of partialRemote claimF1 _ _ claim7 "[]" _ None]
    by blast
  moreover have "fetchClaimDetails partialRemote claimF1 = Inr ?res"
    by code_simp
  ultimately have f7: "fetchClaimDetails partialRemote claimF1 = Inr ?res" by blast
  have c7: "catchFetch claimF1 (fetchClaimDetails partialRemote claimF1) = Fetched ?res"
    using f7 fetchClaimDetails_outcomes [of partialRemote claimF1 _ _ _ _ _ _ _ _ ?res]
    by blast
  show ?thesis
    using s1 f1 c1 s2 f2 s3 f3 s4 f4 s5 f5 s6 d6 f6 s7 d7 i7 f7 c7 by (intro conjI)
qed

text \<open>
  Claim C3 as stated says that \<open>fetchClaimDetails\<close> never throws: for a search response that
  is not OK it throws \<open>Search failed: 500\<close>, and for an empty result \<open>Claim not found\<close>.
\<close>

theorem fetchClaimDetails_throws_counterexample:
  "fetchClaimDetails downRemote claimF1 = Inl (SearchFailed 500)
   \<and> fetchClaimDetails quietRemote claimF1 = Inl (ClaimNotFound ''F-1'')"
  by code_simp

section \<open>Verification of the export driver\<close>

lemma store_simps [simp]:
  "exportedClaim (saveProgress c t s n st) = exportedClaim st"
  "exportError (saveProgress c t s n st) = exportError st"
  "exportJob (saveProgress c t s n st) = exportJob st"
  "exportComplete (saveProgress c t s n st) = exportComplete st"
  "exportedClaim (saveClaimToStorage i c' st) = (exportedClaim st)(i \<mapsto> c')"
  "exportError (saveClaimToStorage i c' st) = exportError st"
  "exportJob (saveClaimToStorage i c' st) = exportJob st"
  "exportComplete (saveClaimToStorage i c' st) = exportComplete st"
  "exportProgress (saveClaimToStorage i c' st) = exportProgress st"
  "exportedClaim (updateCompletedCount m st) = exportedClaim st"
  "exportError (updateCompletedCount m st) = exportError st"
  "exportComplete (updateCompletedCount m st) = exportComplete st"
  "exportProgress (updateCompletedCount m st) = exportProgress st"
  "exportJob (updateCompletedCount m st) = map_option (\<lambda>job. job\<lparr>completedCount := m\<rparr>) (exportJob st)"
  "exportedClaim (markComplete t n st) = exportedClaim st"
  "exportError (markComplete t n st) = exportError st"
  "exportJob (markComplete t n st) = exportJob st"
  "exportComplete (markComplete t n st) = True"
  "exportProgress (markComplete t n st) = None"
  by (simp_all add: saveProgress_def saveClaimToStorage_def updateCompletedCount_def
      markComplete_def split: option.split)

lemma countedJob_next:
  "k \<le> i \<Longrightarrow> map_option (\<lambda>job. job\<lparr>completedCount := Suc i\<rparr>) (countedJob k i job0)
     = countedJob k (Suc i) job0"
  by (cases job0) (simp_all add: countedJob_def)

lemma runInv_step_AtFetch:
  assumes "runInv fetchAt cl k d0 d" and "phase d = AtFetch i" and "i < length cl"
  shows "runInv fetchAt cl k d0 (driverStep fetchAt timeAt d)"
proof -
  have ki: "k \<le> i" using assms by (auto simp: runInv_def phaseOk_def)
  then have upt: "[k..<Suc i] = [k..<i] @ [i]" by simp
  show ?thesis
    using assms ki upt
    by (auto simp: runInv_def phaseOk_def driverStep_def Let_def writtenUpto_def loggedUpto_def
        phaseIndex_def expected_def)
qed

lemma runInv_step_done:
  assumes "runInv fetchAt cl k d0 d" and "phase d = AtFetch i" and "\<not> i < length cl"
  shows "runFinal fetchAt cl k d0 (driverStep fetchAt timeAt d)"
proof -
  have ik: "i = k" using assms by (auto simp: runInv_def phaseOk_def)
  show ?thesis
    using assms ik
    by (auto simp: runInv_def runFinal_def phaseOk_def driverStep_def Let_def writtenUpto_def
        loggedUpto_def phaseIndex_def countedJob_def)
qed

lemma runInv_step_AtSave:
  assumes "runInv fetchAt cl k d0 d" and "phase d = AtSave i c"
  shows "runInv fetchAt cl k d0 (driverStep fetchAt timeAt d)"
  using assms
  by (auto simp: runInv_def phaseOk_def driverStep_def Let_def writtenUpto_def loggedUpto_def
      phaseIndex_def less_Suc_eq)

lemma runInv_step_AtCount:
  assumes "runInv fetchAt cl k d0 d" and "phase d = AtCount i"
  shows "runInv fetchAt cl k d0 (driverStep fetchAt timeAt d)"
proof -
  have ki: "k \<le> i" and il: "i < length cl"
    using assms by (auto simp: runInv_def phaseOk_def)
  show ?thesis
  proof (cases "i < length cl - 1")
    case True
    then show ?thesis
      using assms ki il countedJob_next [OF ki, of "exportJob (store d0)"]
      by (auto simp: runInv_def phaseOk_def driverStep_def Let_def writtenUpto_def loggedUpto_def
          phaseIndex_def)
  next
    case False
    then have "i + 1 = length cl" using il by simp
    then show ?thesis
      using assms False ki il
      by (auto simp: runInv_def phaseOk_def driverStep_def Let_def writtenUpto_def loggedUpto_def
          phaseIndex_def)
  qed
qed

lemma runInv_step_AtLastCount:
  assumes "runInv fetchAt cl k d0 d" and "phase d = AtLastCount i"
  shows "runFinal fetchAt cl k d0 (driverStep fetchAt timeAt d)"
proof -
  have ki: "k \<le> i" and il: "i + 1 = length cl"
    using assms by (auto simp: runInv_def phaseOk_def)
  have job: "map_option (\<lambda>job. job\<lparr>completedCount := Suc i\<rparr>) (countedJob k i (exportJob (store d0)))
      = map_option (\<lambda>job. job\<lparr>completedCount := length cl\<rparr>) (exportJob (store d0))"
    using il by (cases "exportJob (store d0)") (auto simp: countedJob_def)
  have upt: "[k..<length cl] = [k..<i] @ [i]"
    using ki il [symmetric] by simp
  show ?thesis
    using assms ki il job upt
    by (auto simp: runInv_def runFinal_def phaseOk_def driverStep_def Let_def writtenUpto_def
        loggedUpto_def phaseIndex_def)
qed

lemma stepsLeft_driverStep:
  "phase d \<noteq> Idle \<Longrightarrow> stepsLeft (driverStep fetchAt timeAt d) < stepsLeft d"
  by (cases "phase d") (auto simp: driverStep_def stepsLeft_def Let_def)

lemma runInv_step:
  assumes "runInv fetchAt cl k d0 d"
  shows "runInv fetchAt cl k d0 (driverStep fetchAt timeAt d)
         \<or> runFinal fetchAt cl k d0 (driverStep fetchAt timeAt d)"
proof (cases "phase d")
  case Idle
  then show ?thesis using assms by (simp add: runInv_def phaseOk_def)
next
  case (AtFetch i)
  show ?thesis
  proof (cases "i < length cl")
    case True
    show ?thesis by (rule disjI1) (rule runInv_step_AtFetch [OF assms AtFetch True])
  next
    case False
    show ?thesis by (rule disjI2) (rule runInv_step_done [OF assms AtFetch False])
  qed
next
  case (AtSave i c)
  show ?thesis by (rule disjI1) (rule runInv_step_AtSave [OF assms AtSave])
next
  case (AtCount i)
  show ?thesis by (rule disjI1) (rule runInv_step_AtCount [OF assms AtCount])
next
  case (AtLastCount i)
  show ?thesis by (rule disjI2) (rule runInv_step_AtLastCount [OF assms AtLastCount])
qed

lemma runDriver_final:
  "runInv fetchAt cl k d0 d \<Longrightarrow> runFinal fetchAt cl k d0 (runDriver fetchAt timeAt d)"
proof (induction fetchAt timeAt d rule: runDriver.induct)
  case (1 fetchAt timeAt d)
  have ni: "phase d \<noteq> Idle"
    using "1.prems" by (auto simp: runInv_def phaseOk_def)
  then have run: "runDriver fetchAt timeAt d = runDriver fetchAt timeAt (driverStep fetchAt timeAt d)"
    by (subst runDriver.simps) simp
  from runInv_step [OF "1.prems", of timeAt] show ?case
  proof
    assume "runInv fetchAt cl k d0 (driverStep fetchAt timeAt d)"
    then have "runFinal fetchAt cl k d0 (runDriver fetchAt timeAt (driverStep fetchAt timeAt d))"
      by (rule "1.IH" [OF ni])
    then show ?thesis by (simp only: run)
  next
    assume fin: "runFinal fetchAt cl k d0 (driverStep fetchAt timeAt d)"
    then have "phase (driverStep fetchAt timeAt d) = Idle" by (simp add: runFinal_def)
    then have "runDriver fetchAt timeAt (driverStep fetchAt timeAt d) = driverStep fetchAt timeAt d"
      by (subst runDriver.simps) simp
    then show ?thesis using fin by (simp only: run)
  qed
qed

lemma enterLoop_runInv:
  "runInv fetchAt cl k (enterLoop cl k now d) (enterLoop cl k now d)"
  by (auto simp: runInv_def phaseOk_def enterLoop_def writtenUpto_def loggedUpto_def
      phaseIndex_def countedJob_def)

declare runDriver.simps [simp del]

lemma processClaimsList_final:
  "runFinal fetchAt cl k (enterLoop cl k now d) (processClaimsList fetchAt timeAt cl k now d)"
  unfolding processClaimsList_def by (rule runDriver_final) (rule enterLoop_runInv)

lemma enterLoop_fields [simp]:
  "exportedClaim (store (enterLoop cl k now d)) = exportedClaim (store d)"
  "exportError (store (enterLoop cl k now d)) = exportError (store d)"
  "exportJob (store (enterLoop cl k now d)) = exportJob (store d)"
  "exportComplete (store (enterLoop cl k now d)) = exportComplete (store d)"
  "fetchLog (enterLoop cl k now d) = fetchLog d"
  "claimsToProcess (enterLoop cl k now d) = cl"
  "phase (enterLoop cl k now d) = AtFetch k"
  by (simp_all add: enterLoop_def)

text \<open>
  Claim C2. In a run of the loop from \<open>startFrom\<close> over the claims \<open>cl\<close>, every iteration
  \<open>i\<close> whose fetch throws stores at key \<open>i\<close> the fields of the claim with the error, every
  iteration whose fetch returns stores the result, every index from \<open>startFrom\<close> to the last
  is fetched once and in order, the keys outside this range are left as they were, the
  error of the job is left as it was (no failure of a fetch sets it), the export is marked
  complete, and the ledger counts all the claims.
\<close>

theorem processClaimsList_isolates_failures:
  "(\<forall>i e. startFrom \<le> i \<and> i < length cl \<and> fetchAt i (cl ! i) = Inl e \<longrightarrow>
       exportedClaim (store (processClaimsList fetchAt timeAt cl startFrom now d)) i
         = Some (FetchError (cl ! i) e))
   \<and> (\<forall>i res. startFrom \<le> i \<and> i < length cl \<and> fetchAt i (cl ! i) = Inr res \<longrightarrow>
       exportedClaim (store (processClaimsList fetchAt timeAt cl startFrom now d)) i
         = Some (Fetched res))
   \<and> (\<forall>i. i < startFrom \<or> length cl \<le> i \<longrightarrow>
       exportedClaim (store (processClaimsList fetchAt timeAt cl startFrom now d)) i
         = exportedClaim (store d) i)
   \<and> fetchLog (processClaimsList fetchAt timeAt cl startFrom now d)
       = fetchLog d @ map (\<lambda>i. (i, cl ! i)) [startFrom..<length cl]
   \<and> exportError (store (processClaimsList fetchAt timeAt cl startFrom now d))
       = exportError (store d)
   \<and> exportComplete (store (processClaimsList fetchAt timeAt cl startFrom now d))
   \<and> phase (processClaimsList fetchAt timeAt cl startFrom now d) = Idle
   \<and> (startFrom < length cl \<longrightarrow>
       exportJob (store (processClaimsList fetchAt timeAt cl startFrom now d))
         = map_option (\<lambda>job. job\<lparr>completedCount := length cl\<rparr>) (exportJob (store d)))"
proof -
  let ?f = "processClaimsList fetchAt timeAt cl startFrom now d"
  have fin: "runFinal fetchAt cl startFrom (enterLoop cl startFrom now d) ?f"
    by (rule processClaimsList_final)
  then have rec: "\<forall>j. startFrom \<le> j \<and> j < length cl \<longrightarrow>
      exportedClaim (store ?f) j = Some (catchFetch (cl ! j) (fetchAt j (cl ! j)))"
    by (simp add: runFinal_def expected_def)
  have 1: "\<forall>i e. startFrom \<le> i \<and> i < length cl \<and> fetchAt i (cl ! i) = Inl e \<longrightarrow>
       exportedClaim (store ?f) i = Some (FetchError (cl ! i) e)"
    using rec by (simp add: catchFetch_def)
  have 2: "\<forall>i res. startFrom \<le> i \<and> i < length cl \<and> fetchAt i (cl ! i) = Inr res \<longrightarrow>
       exportedClaim (store ?f) i = Some (Fetched res)"
    using rec by (simp add: catchFetch_def)
  have 3: "\<forall>i. i < startFrom \<or> length cl \<le> i \<longrightarrow>
       exportedClaim (store ?f) i = exportedClaim (store d) i"
    using fin by (simp add: runFinal_def)
  have 4: "fetchLog ?f = fetchLog d @ map (\<lambda>i. (i, cl ! i)) [startFrom..<length cl]"
    using fin by (simp add: runFinal_def)
  have 5: "exportError (store ?f) = exportError (store d)"
    "exportComplete (store ?f)" "phase ?f = Idle"
    using fin by (simp_all add: runFinal_def)
  have 6: "startFrom < length cl \<longrightarrow>
       exportJob (store ?f) = map_option (\<lambda>job. job\<lparr>completedCount := length cl\<rparr>) (exportJob (store d))"
    using fin by (simp add: runFinal_def)
  show ?thesis using 1 2 3 4 5 6 by (intro conjI)
qed

theorem processClaimsList_isolates_failures_witness:
  "0 \<le> (1::nat) \<and> 1 < length claims3 \<and> fetch3 1 (claims3 ! 1) = Inl (SearchFailed 500)
   \<and> exportedClaim (store (processClaimsList fetch3 clock3 claims3 0 99 idle3)) 1
       = Some (FetchError \<lparr>fileNumber = ''B2'', rowIndex = 2\<rparr> (SearchFailed 500))
   \<and> fetch3 2 (claims3 ! 2) = Inr (initialResult ''C3'' claim7)
   \<and> exportedClaim (store (processClaimsList fetch3 clock3 claims3 0 99 idle3)) 2
       = Some (Fetched (initialResult ''C3'' claim7))
   \<and> exportedClaim (store (processClaimsList fetch3 clock3 claims3 0 99 idle3)) 3 = None
   \<and> fetchLog (processClaimsList fetch3 clock3 claims3 0 99 idle3)
       = [(0, \<lparr>fileNumber = ''A1'', rowIndex = 1\<rparr>), (1, \<lparr>fileNumber = ''B2'', rowIndex = 2\<rparr>),
          (2, \<lparr>fileNumber = ''C3'', rowIndex = 4\<rparr>)]
   \<and> exportError (store (processClaimsList fetch3 clock3 claims3 0 99 idle3)) = None
   \<and> exportComplete (store (processClaimsList fetch3 clock3 claims3 0 99 idle3))
   \<and> exportJob (store (processClaimsList fetch3 clock3 claims3 0 99 idle3))
       = Some (job3\<lparr>completedCount := 3\<rparr>)"
proof -
  let ?f = "processClaimsList fetch3 clock3 claims3 0 99 idle3"
  note inst = processClaimsList_isolates_failures [of 0 claims3 fetch3 clock3 99 idle3]
  have len: "length claims3 = 3" by (simp add: claims3_def)
  have c1: "claims3 ! 1 = \<lparr>fileNumber = ''B2'', rowIndex = 2\<rparr>" by (simp add: claims3_def)
  have f1: "fetch3 1 (claims3 ! 1) = Inl (SearchFailed 500)" by code_simp
  have f2: "fetch3 2 (claims3 ! 2) = Inr (initialResult ''C3'' claim7)" by code_simp
  have a: "\<forall>i e. 0 \<le> i \<and> i < length claims3 \<and> fetch3 i (claims3 ! i) = Inl e \<longrightarrow>
       exportedClaim (store ?f) i = Some (FetchError (claims3 ! i) e)"
    using inst by (elim conjE)
  have r1: "exportedClaim (store ?f) 1 = Some (FetchError \<lparr>fileNumber = ''B2'', rowIndex = 2\<rparr> (SearchFailed 500))"
    using a f1 len c1 by simp
  have b: "\<forall>i res. 0 \<le> i \<and> i < length claims3 \<and> fetch3 i (claims3 ! i) = Inr res \<longrightarrow>
       exportedClaim (store ?f) i = Some (Fetched res)"
    using inst by (elim conjE)
  have r2: "exportedClaim (store ?f) 2 = Some (Fetched (initialResult ''C3'' claim7))"
    using b f2 len by simp
  have c: "\<forall>i. i < 0 \<or> length claims3 \<le> i \<longrightarrow>
       exportedClaim (store ?f) i = exportedClaim (store idle3) i"
    using inst by (elim conjE)
  have r3: "exportedClaim (store ?f) 3 = None"
    using c len by (simp add: idle3_def cleanStorage_def)
  have "fetchLog ?f = fetchLog idle3 @ map (\<lambda>i. (i, claims3 ! i)) [0..<length claims3]"
    using inst by (elim conjE)
  moreover have "fetchLog idle3 @ map (\<lambda>i. (i, claims3 ! i)) [0..<length claims3]
      = [(0, \<lparr>fileNumber = ''A1'', rowIndex = 1\<rparr>), (1, \<lparr>fileNumber = ''B2'', rowIndex = 2\<rparr>),
          (2, \<lparr>fileNumber = ''C3'', rowIndex = 4\<rparr>)]"
    by code_simp
  ultimately have r4: "fetchLog ?f
      = [(0, \<lparr>fileNumber = ''A1'', rowIndex = 1\<rparr>), (1, \<lparr>fileNumber = ''B2'', rowIndex = 2\<rparr>),
          (2, \<lparr>fileNumber = ''C3'', rowIndex = 4\<rparr>)]"
    by simp
  have "exportError (store ?f) = exportError (store idle3)"
    using inst by (elim conjE)
  then have r5: "exportError (store ?f) = None"
    by (simp add: idle3_def cleanStorage_def)
  have r6: "exportComplete (store ?f)"
    using inst by (elim conjE)
  have "0 < length claims3 \<longrightarrow>
       exportJob (store ?f)
         = map_option (\<lambda>job. job\<lparr>completedCount := length claims3\<rparr>) (exportJob (store idle3))"
    using inst by (elim conjE)
  then have r7: "exportJob (store ?f) = Some (job3\<lparr>completedCount := 3\<rparr>)"
    using len by (simp add: idle3_def)
  show ?thesis using len f1 r1 f2 r2 r3 r4 r5 r6 r7 by simp
qed

lemma rebuildClaims_length [simp]: "length (rebuildClaims fns) = length fns"
  by (simp add: rebuildClaims_def)

lemma rebuildClaims_nth:
  "i < length fns \<Longrightarrow> rebuildClaims fns ! i = \<lparr>fileNumber = fns ! i, rowIndex = i\<rparr>"
  by (simp add: rebuildClaims_def)

lemma map_rebuildClaims:
  "map (\<lambda>i. (i, rebuildClaims fns ! i)) [k..<length fns]
     = map (\<lambda>i. (i, \<lparr>fileNumber = fns ! i, rowIndex = i\<rparr>)) [k..<length fns]"
  by (simp add: rebuildClaims_nth)

lemma resumeExport_job:
  "exportJob (store d) = Some job \<Longrightarrow>
   runDriver fetchAt timeAt (resumeExport now d)
     = processClaimsList fetchAt timeAt (rebuildClaims (fileNumbers job)) (completedCount job) now d"
  by (simp add: resumeExport_def processClaimsList_def)

text \<open>
  Claim C7. Resume reads the job, rebuilds the claims from its \<open>fileNumbers\<close> and enters
  the loop at \<open>completedCount\<close>. In the run that follows, the calls of the fetch are exactly
  those of the indices from \<open>completedCount\<close> to the last, once each and in order, each for
  the file number the job holds at this index: no index below \<open>completedCount\<close> is fetched,
  and the records below it are left as they are. Without a job, Resume fetches nothing and
  records the error \<open>No export job found to resume\<close>.
\<close>

theorem resumeExport_from_completedCount:
  "(exportJob (store d) = Some job \<longrightarrow>
      claimsToProcess (resumeExport now d) = rebuildClaims (fileNumbers job)
      \<and> length (rebuildClaims (fileNumbers job)) = length (fileNumbers job)
      \<and> (\<forall>i < length (fileNumbers job).
            rebuildClaims (fileNumbers job) ! i = \<lparr>fileNumber = fileNumbers job ! i, rowIndex = i\<rparr>)
      \<and> phase (resumeExport now d) = AtFetch (completedCount job)
      \<and> fetchLog (resumeExport now d) = fetchLog d
      \<and> fetchLog (runDriver fetchAt timeAt (resumeExport now d))
          = fetchLog d @ map (\<lambda>i. (i, \<lparr>fileNumber = fileNumbers job ! i, rowIndex = i\<rparr>))
                           [completedCount job..<length (fileNumbers job)]
      \<and> (total job = length (fileNumbers job) \<longrightarrow>
          map fst (drop (length (fetchLog d)) (fetchLog (runDriver fetchAt timeAt (resumeExport now d))))
            = [completedCount job..<total job])
      \<and> (\<forall>i < completedCount job.
            exportedClaim (store (runDriver fetchAt timeAt (resumeExport now d))) i
              = exportedClaim (store d) i)
      \<and> (\<forall>i. completedCount job \<le> i \<and> i < length (fileNumbers job) \<longrightarrow>
            exportedClaim (store (runDriver fetchAt timeAt (resumeExport now d))) i
              = Some (catchFetch \<lparr>fileNumber = fileNumbers job ! i, rowIndex = i\<rparr>
                        (fetchAt i \<lparr>fileNumber = fileNumbers job ! i, rowIndex = i\<rparr>))))
   \<and> (exportJob (store d) = None \<longrightarrow>
      phase (resumeExport now d) = Idle
      \<and> fetchLog (runDriver fetchAt timeAt (resumeExport now d)) = fetchLog d
      \<and> exportError (store (resumeExport now d)) = Some NoJobToResume
      \<and> exportedClaim (store (resumeExport now d)) = exportedClaim (store d))"
proof (intro conjI impI)
  assume job: "exportJob (store d) = Some job"
  let ?cl = "rebuildClaims (fileNumbers job)"
  let ?k = "completedCount job"
  let ?f = "runDriver fetchAt timeAt (resumeExport now d)"
  have run: "?f = processClaimsList fetchAt timeAt ?cl ?k now d"
    using job by (rule resumeExport_job)
  have fin: "runFinal fetchAt ?cl ?k (enterLoop ?cl ?k now d) ?f"
    unfolding run by (rule processClaimsList_final)
  show "claimsToProcess (resumeExport now d) = ?cl"
    using job by (simp add: resumeExport_def)
  show "length ?cl = length (fileNumbers job)" by simp
  show "\<forall>i < length (fileNumbers job).
      ?cl ! i = \<lparr>fileNumber = fileNumbers job ! i, rowIndex = i\<rparr>"
    by (simp add: rebuildClaims_nth)
  show "phase (resumeExport now d) = AtFetch ?k"
    using job by (simp add: resumeExport_def)
  show "fetchLog (resumeExport now d) = fetchLog d"
    using job by (simp add: resumeExport_def)
  have "fetchLog ?f = fetchLog d @ map (\<lambda>i. (i, ?cl ! i)) [?k..<length ?cl]"
    using fin by (simp add: runFinal_def)
  then show log: "fetchLog ?f
      = fetchLog d @ map (\<lambda>i. (i, \<lparr>fileNumber = fileNumbers job ! i, rowIndex = i\<rparr>))
                       [?k..<length (fileNumbers job)]"
    by (simp add: rebuildClaims_nth)
  show "map fst (drop (length (fetchLog d)) (fetchLog ?f)) = [?k..<total job]"
    if "total job = length (fileNumbers job)"
    using that by (simp add: log comp_def)
  have "\<forall>i. i < ?k \<or> length ?cl \<le> i \<longrightarrow>
      exportedClaim (store ?f) i = exportedClaim (store d) i"
    using fin by (simp add: runFinal_def)
  then show "\<forall>i < ?k. exportedClaim (store ?f) i = exportedClaim (store d) i"
    by simp
  from fin have "\<forall>j. ?k \<le> j \<and> j < length ?cl \<longrightarrow>
      exportedClaim (store ?f) j = Some (catchFetch (?cl ! j) (fetchAt j (?cl ! j)))"
    by (simp add: runFinal_def expected_def)
  then show "\<forall>i. ?k \<le> i \<and> i < length (fileNumbers job) \<longrightarrow>
      exportedClaim (store ?f) i
        = Some (catchFetch \<lparr>fileNumber = fileNumbers job ! i, rowIndex = i\<rparr>
                  (fetchAt i \<lparr>fileNumber = fileNumbers job ! i, rowIndex = i\<rparr>))"
    by (simp add: rebuildClaims_nth)
next
  assume none: "exportJob (store d) = None"
  then have idle: "phase (resumeExport now d) = Idle"
    by (simp add: resumeExport_def)
  then show "phase (resumeExport now d) = Idle" .
  have "runDriver fetchAt timeAt (resumeExport now d) = resumeExport now d"
    using idle by (subst runDriver.simps) simp
  then show "fetchLog (runDriver fetchAt timeAt (resumeExport now d)) = fetchLog d"
    using none by (simp add: resumeExport_def)
  show "exportError (store (resumeExport now d)) = Some NoJobToResume"
    using none by (simp add: resumeExport_def recordError_def)
  show "exportedClaim (store (resumeExport now d)) = exportedClaim (store d)"
    using none by (simp add: resumeExport_def recordError_def)
qed

theorem resumeExport_from_completedCount_witness:
  "exportJob (store interrupted3) = Some (job3\<lparr>completedCount := 1\<rparr>)
   \<and> exportedClaim (store interrupted3) 1
       = Some (FetchError \<lparr>fileNumber = ''B2'', rowIndex = 2\<rparr> (SearchFailed 500))
   \<and> phase (resumeExport 200 interrupted3) = AtFetch 1
   \<and> claimsToProcess (resumeExport 200 interrupted3)
       = [\<lparr>fileNumber = ''A1'', rowIndex = 0\<rparr>, \<lparr>fileNumber = ''B2'', rowIndex = 1\<rparr>,
          \<lparr>fileNumber = ''C3'', rowIndex = 2\<rparr>]
   \<and> fetchLog (runDriver foundAlways clock3 (resumeExport 200 interrupted3))
       = fetchLog interrupted3
         @ [(1, \<lparr>fileNumber = ''B2'', rowIndex = 1\<rparr>), (2, \<lparr>fileNumber = ''C3'', rowIndex = 2\<rparr>)]
   \<and> total (job3\<lparr>completedCount := 1\<rparr>) = length (fileNumbers (job3\<lparr>completedCount := 1\<rparr>))
   \<and> map fst (drop (length (fetchLog interrupted3))
         (fetchLog (runDriver foundAlways clock3 (resumeExport 200 interrupted3)))) = [1, 2]
   \<and> exportedClaim (store (runDriver foundAlways clock3 (resumeExport 200 interrupted3))) 0
       = exportedClaim (store interrupted3) 0
   \<and> exportedClaim (store (runDriver foundAlways clock3 (resumeExport 200 interrupted3))) 1
       = Some (Fetched (initialResult ''B2'' claim7))
   \<and> exportJob (store idle0) = None
   \<and> phase (resumeExport 200 idle0) = Idle
   \<and> fetchLog (runDriver foundAlways clock3 (resumeExport 200 idle0)) = []
   \<and> exportError (store (resumeExport 200 idle0)) = Some NoJobToResume"
proof -
  let ?j = "job3\<lparr>completedCount := 1\<rparr>"
  let ?f = "runDriver foundAlways clock3 (resumeExport 200 interrupted3)"
  have job: "exportJob (store interrupted3) = Some ?j" by code_simp
  have k1: "exportedClaim (store interrupted3) 1
       = Some (FetchError \<lparr>fileNumber = ''B2'', rowIndex = 2\<rparr> (SearchFailed 500))"
    by code_simp
  have fns: "fileNumbers ?j = [''A1'', ''B2'', ''C3'']" and cc: "completedCount ?j = 1"
    by (simp_all add: job3_def)
  note inst = resumeExport_from_completedCount [of interrupted3 ?j 200 foundAlways clock3]
  have all: "claimsToProcess (resumeExport 200 interrupted3) = rebuildClaims (fileNumbers ?j)
      \<and> length (rebuildClaims (fileNumbers ?j)) = length (fileNumbers ?j)
      \<and> (\<forall>i < length (fileNumbers ?j).
            rebuildClaims (fileNumbers ?j) ! i = \<lparr>fileNumber = fileNumbers ?j ! i, rowIndex = i\<rparr>)
      \<and> phase (resumeExport 200 interrupted3) = AtFetch (completedCount ?j)
      \<and> fetchLog (resumeExport 200 interrupted3) = fetchLog interrupted3
      \<and> fetchLog ?f
          = fetchLog interrupted3 @ map (\<lambda>i. (i, \<lparr>fileNumber = fileNumbers ?j ! i, rowIndex = i\<rparr>))
                           [completedCount ?j..<length (fileNumbers ?j)]
      \<and> (total ?j = length (fileNumbers ?j) \<longrightarrow>
          map fst (drop (length (fetchLog interrupted3)) (fetchLog ?f))
            = [completedCount ?j..<total ?j])
      \<and> (\<forall>i < completedCount ?j.
            exportedClaim (store ?f) i = exportedClaim (store interrupted3) i)
      \<and> (\<forall>i. completedCount ?j \<le> i \<and> i < length (fileNumbers ?j) \<longrightarrow>
            exportedClaim (store ?f) i
              = Some (catchFetch \<lparr>fileNumber = fileNumbers ?j ! i, rowIndex = i\<rparr>
                        (foundAlways i \<lparr>fileNumber = fileNumbers ?j ! i, rowIndex = i\<rparr>)))"
    using inst job by blast
  have p: "phase (resumeExport 200 interrupted3) = AtFetch 1"
    using all cc by simp
  have "rebuildClaims [''A1'', ''B2'', ''C3'']
      = [\<lparr>fileNumber = ''A1'', rowIndex = 0\<rparr>, \<lparr>fileNumber = ''B2'', rowIndex = 1\<rparr>,
         \<lparr>fileNumber = ''C3'', rowIndex = 2\<rparr>]"
    by code_simp
  then have c: "claimsToProcess (resumeExport 200 interrupted3)
      = [\<lparr>fileNumber = ''A1'', rowIndex = 0\<rparr>, \<lparr>fileNumber = ''B2'', rowIndex = 1\<rparr>,
         \<lparr>fileNumber = ''C3'', rowIndex = 2\<rparr>]"
    using all fns by simp
  have "map (\<lambda>i. (i, \<lparr>fileNumber = [''A1'', ''B2'', ''C3''] ! i, rowIndex = i\<rparr>)) [1..<length [''A1'', ''B2'', ''C3'']]
      = [(1, \<lparr>fileNumber = ''B2'', rowIndex = 1\<rparr>), (2, \<lparr>fileNumber = ''C3'', rowIndex = 2\<rparr>)]"
    by code_simp
  then have l: "fetchLog ?f = fetchLog interrupted3
         @ [(1, \<lparr>fileNumber = ''B2'', rowIndex = 1\<rparr>), (2, \<lparr>fileNumber = ''C3'', rowIndex = 2\<rparr>)]"
    using all unfolding fns cc by simp
  have tt: "total ?j = length (fileNumbers ?j)" by (simp add: job3_def)
  then have "map fst (drop (length (fetchLog interrupted3)) (fetchLog ?f))
      = [completedCount ?j..<total ?j]"
    using all by blast
  moreover have "[completedCount ?j..<total ?j] = [1, 2]" by code_simp
  ultimately have mf: "map fst (drop (length (fetchLog interrupted3)) (fetchLog ?f)) = [1, 2]"
    by simp
  have k0: "exportedClaim (store ?f) 0 = exportedClaim (store interrupted3) 0"
    using all cc by simp
  have "catchFetch \<lparr>fileNumber = ''B2'', rowIndex = 1\<rparr> (foundAlways 1 \<lparr>fileNumber = ''B2'', rowIndex = 1\<rparr>)
      = Fetched (initialResult ''B2'' claim7)"
    by code_simp
  moreover have "exportedClaim (store ?f) 1
      = Some (catchFetch \<lparr>fileNumber = [''A1'', ''B2'', ''C3''] ! 1, rowIndex = 1\<rparr>
                (foundAlways 1 \<lparr>fileNumber = [''A1'', ''B2'', ''C3''] ! 1, rowIndex = 1\<rparr>))"
    using all unfolding fns cc by simp
  ultimately have k1': "exportedClaim (store ?f) 1 = Some (Fetched (initialResult ''B2'' claim7))"
    by simp
  have n: "exportJob (store idle0) = None" by code_simp
  note inst0 = resumeExport_from_completedCount [of idle0 job3 200 foundAlways clock3]
  have none: "phase (resumeExport 200 idle0) = Idle
      \<and> fetchLog (runDriver foundAlways clock3 (resumeExport 200 idle0)) = fetchLog idle0
      \<and> exportError (store (resumeExport 200 idle0)) = Some NoJobToResume
      \<and> exportedClaim (store (resumeExport 200 idle0)) = exportedClaim (store idle0)"
    using inst0 n by blast
  have l0: "fetchLog (runDriver foundAlways clock3 (resumeExport 200 idle0)) = []"
    using none by (simp add: idle0_def)
  show ?thesis using job k1 p c l tt mf k0 k1' n none l0 by simp
qed

lemma processCsv_started:
  assumes "parseCsv csvText = Inr parsed" and "parsed \<noteq> []"
  shows "processCsv csvText isTest now s =
     enterLoop (if isTest then take 1 parsed else parsed) 0 now
       \<lparr>store = (clearMarks s)\<lparr>exportJob := Some
          \<lparr>fileNumbers = map fileNumber (if isTest then take 1 parsed else parsed),
           total = length (if isTest then take 1 parsed else parsed), completedCount = 0,
           testMode = isTest, startedAt = now\<rparr>\<rparr>,
        claimsToProcess = [], phase = Idle, fetchLog = []\<rparr>"
  using assms by (simp add: processCsv_def processCsvAndFetchData_def Let_def)

lemma processCsv_failed:
  assumes "parseCsv csvText = Inl e \<or> (parseCsv csvText = Inr [] \<and> e = NoClaimsFound)"
  shows "processCsv csvText isTest now s =
     \<lparr>store = recordError e (clearMarks s), claimsToProcess = [], phase = Idle, fetchLog = []\<rparr>"
  using assms by (auto simp: processCsv_def processCsvAndFetchData_def Let_def)

lemma take1_hd: "xs \<noteq> [] \<Longrightarrow> take 1 xs = [hd xs]"
  by (cases xs) simp_all

text \<open>
  Claim C10. When the text parses to no claim at all, no job is written and the error
  \<open>No claims found in CSV\<close> is recorded. When the text parses to at least one claim, the job that is written holds,
  in test mode, the first file number alone with \<open>total = 1\<close>, however many claims were
  parsed, and the run fetches the first claim only; without test mode it holds all the
  file numbers, \<open>total\<close> is their number and the run fetches every claim in order. In both
  modes the job starts with \<open>completedCount = 0\<close> and records the mode.
\<close>

theorem processCsv_test_mode:
  "(parseCsv csvText0 = Inr [] \<longrightarrow>
     exportJob (store (processCsv csvText0 isTest now0 s0)) = exportJob s0
     \<and> exportError (store (processCsv csvText0 isTest now0 s0)) = Some NoClaimsFound
     \<and> phase (processCsv csvText0 isTest now0 s0) = Idle)
   \<and> (parseCsv csvText = Inr parsed \<and> parsed \<noteq> [] \<longrightarrow>
     exportJob (store (processCsv csvText True now s))
       = Some \<lparr>fileNumbers = [fileNumber (hd parsed)], total = 1, completedCount = 0,
               testMode = True, startedAt = now\<rparr>
     \<and> claimsToProcess (processCsv csvText True now s) = [hd parsed]
     \<and> phase (processCsv csvText True now s) = AtFetch 0
     \<and> fetchLog (runDriver fetchAt timeAt (processCsv csvText True now s)) = [(0, hd parsed)]
     \<and> exportedClaim (store (runDriver fetchAt timeAt (processCsv csvText True now s))) 0
         = Some (catchFetch (hd parsed) (fetchAt 0 (hd parsed)))
     \<and> (\<forall>i \<ge> 1. exportedClaim (store (runDriver fetchAt timeAt (processCsv csvText True now s))) i
           = exportedClaim s i)
     \<and> exportJob (store (processCsv csvText False now s))
       = Some \<lparr>fileNumbers = map fileNumber parsed, total = length parsed, completedCount = 0,
               testMode = False, startedAt = now\<rparr>
     \<and> claimsToProcess (processCsv csvText False now s) = parsed
     \<and> phase (processCsv csvText False now s) = AtFetch 0
     \<and> fetchLog (runDriver fetchAt timeAt (processCsv csvText False now s))
         = map (\<lambda>i. (i, parsed ! i)) [0..<length parsed]
     \<and> (\<forall>i < length parsed.
           exportedClaim (store (runDriver fetchAt timeAt (processCsv csvText False now s))) i
             = Some (catchFetch (parsed ! i) (fetchAt i (parsed ! i)))))"
proof (rule conjI; rule impI)
  assume "parseCsv csvText0 = Inr []"
  then have f: "processCsv csvText0 isTest now0 s0 =
     \<lparr>store = recordError NoClaimsFound (clearMarks s0), claimsToProcess = [], phase = Idle,
      fetchLog = []\<rparr>"
    using processCsv_failed [of csvText0 NoClaimsFound isTest now0 s0] by simp
  show "exportJob (store (processCsv csvText0 isTest now0 s0)) = exportJob s0
     \<and> exportError (store (processCsv csvText0 isTest now0 s0)) = Some NoClaimsFound
     \<and> phase (processCsv csvText0 isTest now0 s0) = Idle"
    by (simp add: f recordError_def clearMarks_def)
next
  assume a: "parseCsv csvText = Inr parsed \<and> parsed \<noteq> []"
  then have p: "parseCsv csvText = Inr parsed" and ne: "parsed \<noteq> []" by simp_all
  have t1: "take 1 parsed = [hd parsed]" using ne by (rule take1_hd)
  let ?dT = "\<lparr>store = (clearMarks s)\<lparr>exportJob := Some
          \<lparr>fileNumbers = map fileNumber [hd parsed], total = length [hd parsed], completedCount = 0,
           testMode = True, startedAt = now\<rparr>\<rparr>,
        claimsToProcess = [], phase = Idle, fetchLog = []\<rparr>"
  let ?dF = "\<lparr>store = (clearMarks s)\<lparr>exportJob := Some
          \<lparr>fileNumbers = map fileNumber parsed, total = length parsed, completedCount = 0,
           testMode = False, startedAt = now\<rparr>\<rparr>,
        claimsToProcess = [], phase = Idle, fetchLog = []\<rparr>"
  have sT: "processCsv csvText True now s = enterLoop [hd parsed] 0 now ?dT"
    using processCsv_started [OF p ne, of True now s] unfolding t1 by simp
  have sF: "processCsv csvText False now s = enterLoop parsed 0 now ?dF"
    using processCsv_started [OF p ne, of False now s] by simp
  have fT: "runFinal fetchAt [hd parsed] 0 (enterLoop [hd parsed] 0 now ?dT)
      (runDriver fetchAt timeAt (processCsv csvText True now s))"
    unfolding sT using processClaimsList_final [of fetchAt "[hd parsed]" 0 now ?dT timeAt]
    by (simp add: processClaimsList_def)
  have fF: "runFinal fetchAt parsed 0 (enterLoop parsed 0 now ?dF)
      (runDriver fetchAt timeAt (processCsv csvText False now s))"
    unfolding sF using processClaimsList_final [of fetchAt parsed 0 now ?dF timeAt]
    by (simp add: processClaimsList_def)
  have 1: "exportJob (store (processCsv csvText True now s))
       = Some \<lparr>fileNumbers = [fileNumber (hd parsed)], total = 1, completedCount = 0,
               testMode = True, startedAt = now\<rparr>"
    by (simp add: sT)
  have 2: "claimsToProcess (processCsv csvText True now s) = [hd parsed]"
    "phase (processCsv csvText True now s) = AtFetch 0"
    by (simp_all add: sT)
  have 3: "fetchLog (runDriver fetchAt timeAt (processCsv csvText True now s)) = [(0, hd parsed)]"
    using fT by (simp add: runFinal_def)
  have 4: "exportedClaim (store (runDriver fetchAt timeAt (processCsv csvText True now s))) 0
         = Some (catchFetch (hd parsed) (fetchAt 0 (hd parsed)))"
    using fT by (simp add: runFinal_def expected_def)
  have 5: "\<forall>i \<ge> 1. exportedClaim (store (runDriver fetchAt timeAt (processCsv csvText True now s))) i
           = exportedClaim s i"
    using fT by (simp add: runFinal_def clearMarks_def)
  have 6: "exportJob (store (processCsv csvText False now s))
       = Some \<lparr>fileNumbers = map fileNumber parsed, total = length parsed, completedCount = 0,
               testMode = False, startedAt = now\<rparr>"
    by (simp add: sF)
  have 7: "claimsToProcess (processCsv csvText False now s) = parsed"
    "phase (processCsv csvText False now s) = AtFetch 0"
    by (simp_all add: sF)
  have 8: "fetchLog (runDriver fetchAt timeAt (processCsv csvText False now s))
         = map (\<lambda>i. (i, parsed ! i)) [0..<length parsed]"
    using fF by (simp add: runFinal_def)
  have 9: "\<forall>i < length parsed.
           exportedClaim (store (runDriver fetchAt timeAt (processCsv csvText False now s))) i
             = Some (catchFetch (parsed ! i) (fetchAt i (parsed ! i)))"
    using fF by (simp add: runFinal_def expected_def)
  show "exportJob (store (processCsv csvText True now s))
       = Some \<lparr>fileNumbers = [fileNumber (hd parsed)], total = 1, completedCount = 0,
               testMode = True, startedAt = now\<rparr>
     \<and> claimsToProcess (processCsv csvText True now s) = [hd parsed]
     \<and> phase (processCsv csvText True now s) = AtFetch 0
     \<and> fetchLog (runDriver fetchAt timeAt (processCsv csvText True now s)) = [(0, hd parsed)]
     \<and> exportedClaim (store (runDriver fetchAt timeAt (processCsv csvText True now s))) 0
         = Some (catchFetch (hd parsed) (fetchAt 0 (hd parsed)))
     \<and> (\<forall>i \<ge> 1. exportedClaim (store (runDriver fetchAt timeAt (processCsv csvText True now s))) i
           = exportedClaim s i)
     \<and> exportJob (store (processCsv csvText False now s))
       = Some \<lparr>fileNumbers = map fileNumber parsed, total = length parsed, completedCount = 0,
               testMode = False, startedAt = now\<rparr>
     \<and> claimsToProcess (processCsv csvText False now s) = parsed
     \<and> phase (processCsv csvText False now s) = AtFetch 0
     \<and> fetchLog (runDriver fetchAt timeAt (processCsv csvText False now s))
         = map (\<lambda>i. (i, parsed ! i)) [0..<length parsed]
     \<and> (\<forall>i < length parsed.
           exportedClaim (store (runDriver fetchAt timeAt (processCsv csvText False now s))) i
             = Some (catchFetch (parsed ! i) (fetchAt i (parsed ! i))))"
    using 1 2 3 4 5 6 7 8 9 by (intro conjI)
qed

theorem processCsv_test_mode_witness:
  "parseCsv (''Name,Claim #'' @ [LF] @ ''Al,'') = Inr []
   \<and> exportJob (store (processCsv (''Name,Claim #'' @ [LF] @ ''Al,'') True 5
        (cleanStorage :: unit storage))) = None
   \<and> exportError (store (processCsv (''Name,Claim #'' @ [LF] @ ''Al,'') True 5
        (cleanStorage :: unit storage))) = Some NoClaimsFound
   \<and> parseCsv csv3 = Inr claims3 \<and> claims3 \<noteq> []
   \<and> exportJob (store (processCsv csv3 True 99 (cleanStorage :: unit storage)))
       = Some \<lparr>fileNumbers = [''A1''], total = 1, completedCount = 0, testMode = True,
               startedAt = 99\<rparr>
   \<and> fetchLog (runDriver fetch3 clock3 (processCsv csv3 True 99 (cleanStorage :: unit storage)))
       = [(0, \<lparr>fileNumber = ''A1'', rowIndex = 1\<rparr>)]
   \<and> exportedClaim (store (runDriver fetch3 clock3 (processCsv csv3 True 99 (cleanStorage :: unit storage)))) 1 = None
   \<and> exportJob (store (processCsv csv3 False 99 (cleanStorage :: unit storage))) = Some job3
   \<and> fetchLog (runDriver fetch3 clock3 (processCsv csv3 False 99 (cleanStorage :: unit storage)))
       = [(0, \<lparr>fileNumber = ''A1'', rowIndex = 1\<rparr>), (1, \<lparr>fileNumber = ''B2'', rowIndex = 2\<rparr>),
          (2, \<lparr>fileNumber = ''C3'', rowIndex = 4\<rparr>)]
   \<and> exportedClaim (store (runDriver fetch3 clock3 (processCsv csv3 False 99 (cleanStorage :: unit storage)))) 1
       = Some (FetchError \<lparr>fileNumber = ''B2'', rowIndex = 2\<rparr> (SearchFailed 500))"
proof -
  have p: "parseCsv csv3 = Inr claims3" by code_simp
  have ne: "claims3 \<noteq> []" by (simp add: claims3_def)
  note inst = processCsv_test_mode [of "''Name,Claim #'' @ [LF] @ ''Al,''" True 5
      "cleanStorage :: unit storage" csv3 claims3 99 "cleanStorage :: unit storage" fetch3 clock3]
  have all: "exportJob (store (processCsv csv3 True 99 (cleanStorage :: unit storage)))
       = Some \<lparr>fileNumbers = [fileNumber (hd claims3)], total = 1, completedCount = 0,
               testMode = True, startedAt = 99\<rparr>
     \<and> claimsToProcess (processCsv csv3 True 99 (cleanStorage :: unit storage)) = [hd claims3]
     \<and> phase (processCsv csv3 True 99 (cleanStorage :: unit storage)) = AtFetch 0
     \<and> fetchLog (runDriver fetch3 clock3 (processCsv csv3 True 99 (cleanStorage :: unit storage))) = [(0, hd claims3)]
     \<and> exportedClaim (store (runDriver fetch3 clock3 (processCsv csv3 True 99 (cleanStorage :: unit storage)))) 0
         = Some (catchFetch (hd claims3) (fetch3 0 (hd claims3)))
     \<and> (\<forall>i \<ge> 1. exportedClaim (store (runDriver fetch3 clock3 (processCsv csv3 True 99 (cleanStorage :: unit storage)))) i
           = exportedClaim (cleanStorage :: unit storage) i)
     \<and> exportJob (store (processCsv csv3 False 99 (cleanStorage :: unit storage)))
       = Some \<lparr>fileNumbers = map fileNumber claims3, total = length claims3, completedCount = 0,
               testMode = False, startedAt = 99\<rparr>
     \<and> claimsToProcess (processCsv csv3 False 99 (cleanStorage :: unit storage)) = claims3
     \<and> phase (processCsv csv3 False 99 (cleanStorage :: unit storage)) = AtFetch 0
     \<and> fetchLog (runDriver fetch3 clock3 (processCsv csv3 False 99 (cleanStorage :: unit storage)))
         = map (\<lambda>i. (i, claims3 ! i)) [0..<length claims3]
     \<and> (\<forall>i < length claims3.
           exportedClaim (store (runDriver fetch3 clock3 (processCsv csv3 False 99 (cleanStorage :: unit storage)))) i
             = Some (catchFetch (claims3 ! i) (fetch3 i (claims3 ! i))))"
    using inst p ne by blast
  have p0: "parseCsv (''Name,Claim #'' @ [LF] @ ''Al,'') = Inr []" by code_simp
  have e0: "exportJob (store (processCsv (''Name,Claim #'' @ [LF] @ ''Al,'') True 5
        (cleanStorage :: unit storage))) = exportJob (cleanStorage :: unit storage)
     \<and> exportError (store (processCsv (''Name,Claim #'' @ [LF] @ ''Al,'') True 5
        (cleanStorage :: unit storage))) = Some NoClaimsFound
     \<and> phase (processCsv (''Name,Claim #'' @ [LF] @ ''Al,'') True 5
        (cleanStorage :: unit storage)) = Idle"
    using inst p0 by blast
  then have e1: "exportJob (store (processCsv (''Name,Claim #'' @ [LF] @ ''Al,'') True 5
        (cleanStorage :: unit storage))) = None"
    and e2: "exportError (store (processCsv (''Name,Claim #'' @ [LF] @ ''Al,'') True 5
        (cleanStorage :: unit storage))) = Some NoClaimsFound"
    by (simp_all add: cleanStorage_def)
  have hd3: "hd claims3 = \<lparr>fileNumber = ''A1'', rowIndex = 1\<rparr>" by (simp add: claims3_def)
  have j1: "exportJob (store (processCsv csv3 True 99 (cleanStorage :: unit storage)))
       = Some \<lparr>fileNumbers = [''A1''], total = 1, completedCount = 0, testMode = True,
               startedAt = 99\<rparr>"
    using all hd3 by simp
  have l1: "fetchLog (runDriver fetch3 clock3 (processCsv csv3 True 99 (cleanStorage :: unit storage)))
       = [(0, \<lparr>fileNumber = ''A1'', rowIndex = 1\<rparr>)]"
    using all hd3 by simp
  have k1: "exportedClaim (store (runDriver fetch3 clock3
        (processCsv csv3 True 99 (cleanStorage :: unit storage)))) 1 = None"
    using all by (simp add: cleanStorage_def)
  have "\<lparr>fileNumbers = map fileNumber claims3, total = length claims3, completedCount = 0,
               testMode = False, startedAt = 99\<rparr> = job3"
    by code_simp
  then have j2: "exportJob (store (processCsv csv3 False 99 (cleanStorage :: unit storage))) = Some job3"
    using all by simp
  have "map (\<lambda>i. (i, claims3 ! i)) [0..<length claims3]
      = [(0, \<lparr>fileNumber = ''A1'', rowIndex = 1\<rparr>), (1, \<lparr>fileNumber = ''B2'', rowIndex = 2\<rparr>),
          (2, \<lparr>fileNumber = ''C3'', rowIndex = 4\<rparr>)]"
    by code_simp
  then have l2: "fetchLog (runDriver fetch3 clock3 (processCsv csv3 False 99 (cleanStorage :: unit storage)))
       = [(0, \<lparr>fileNumber = ''A1'', rowIndex = 1\<rparr>), (1, \<lparr>fileNumber = ''B2'', rowIndex = 2\<rparr>),
          (2, \<lparr>fileNumber = ''C3'', rowIndex = 4\<rparr>)]"
    using all by simp
  have len: "(1::nat) < length claims3" by (simp add: claims3_def)
  have "catchFetch (claims3 ! 1) (fetch3 1 (claims3 ! 1))
      = FetchError \<lparr>fileNumber = ''B2'', rowIndex = 2\<rparr> (SearchFailed 500)"
    by code_simp
  then have k2: "exportedClaim (store (runDriver fetch3 clock3
        (processCsv csv3 False 99 (cleanStorage :: unit storage)))) 1
       = Some (FetchError \<lparr>fileNumber = ''B2'', rowIndex = 2\<rparr> (SearchFailed 500))"
    using all len by simp
  show ?thesis using p0 e1 e2 p ne j1 l1 k1 j2 l2 k2 by (intro conjI)
qed

lemma storedKeys_simps [simp]:
  "storedKeys (d\<lparr>phase := p\<rparr>) = storedKeys d"
  "storedKeys (d\<lparr>claimsToProcess := cl\<rparr>) = storedKeys d"
  "storedKeys (d\<lparr>fetchLog := l\<rparr>) = storedKeys d"
  "storedKeys (d\<lparr>store := saveProgress c t s n (store d)\<rparr>) = storedKeys d"
  "storedKeys (d\<lparr>store := markComplete t n (store d)\<rparr>) = storedKeys d"
  "storedKeys (d\<lparr>store := updateCompletedCount m (store d)\<rparr>) = storedKeys d"
  "storedKeys (d\<lparr>store := recordError e (store d)\<rparr>) = storedKeys d"
  "storedKeys (d\<lparr>store := saveClaimToStorage i c' (store d)\<rparr>) = insert i (storedKeys d)"
  by (simp_all add: storedKeys_def recordError_def)
















section \<open>Verification of the assembler\<close>

lemma linesFrom_append:
  "linesFrom stringify f (xs @ ys)
     = linesFrom stringify f xs @ linesFrom stringify (f \<and> xs = []) ys"
  by (induction xs arbitrary: f) simp_all

lemma linesFrom_claimLines: "linesFrom stringify True recs = claimLines stringify recs"
proof -
  have "linesFrom stringify f recs
          = (if f \<or> recs = [] then [] else '','' @ [LF]) @ claimLines stringify recs" for f
    unfolding claimLines_def
    by (induction recs arbitrary: f rule: induct_list012) simp_all
  then show ?thesis by simp
qed

lemma stringifyBatch_result:
  "stringifyBatch stringify batchData keys (batchStr, f)
     = (batchStr @ linesFrom stringify f (List.map_filter batchData keys),
        f \<and> List.map_filter batchData keys = [])"
proof (induction keys arbitrary: batchStr f)
  case Nil
  show ?case by (simp add: List.map_filter_simps)
next
  case (Cons i rest)
  show ?case
    by (cases "batchData i") (simp_all add: Cons.IH List.map_filter_simps)
qed

lemma map_filter_getKeys:
  "List.map_filter (getKeys s keys) keys = List.map_filter (exportedClaim s) keys"
  by (simp add: List.map_filter_def getKeys_def cong: map_cong filter_cong)

lemma map_filter_append:
  "List.map_filter g (xs @ ys) = List.map_filter g xs @ List.map_filter g ys"
  by (simp add: List.map_filter_def)

lemma upt_batch:
  "[batchStart..<count]
     = [batchStart..<min (batchStart + LOAD_BATCH_SIZE) count] @ [batchStart + LOAD_BATCH_SIZE..<count]"
proof (cases "batchStart + LOAD_BATCH_SIZE \<le> count")
  case True
  then have "min (batchStart + LOAD_BATCH_SIZE) count = batchStart + LOAD_BATCH_SIZE" by simp
  moreover have "[batchStart..<count]
      = [batchStart..<batchStart + LOAD_BATCH_SIZE] @ [batchStart + LOAD_BATCH_SIZE..<count]"
    using True upt_add_eq_append [of batchStart "batchStart + LOAD_BATCH_SIZE" "count - (batchStart + LOAD_BATCH_SIZE)"]
    by simp
  ultimately show ?thesis by simp
next
  case False
  then show ?thesis by simp
qed

declare loadBatches.simps [simp del]

lemma loadBatches_text:
  "concat (fst (loadBatches stringify s count batchStart acc))
     = concat (fst acc)
       @ linesFrom stringify (fst (snd acc)) (List.map_filter (exportedClaim s) [batchStart..<count])"
proof (induction stringify s count batchStart acc rule: loadBatches.induct)
  case (1 stringify s count batchStart parts f reads)
  show ?case
  proof (cases "batchStart < count")
    case False
    then show ?thesis by (simp add: loadBatches.simps List.map_filter_simps)
  next
    case True
    let ?keys = "[batchStart..<min (batchStart + LOAD_BATCH_SIZE) count]"
    let ?now = "List.map_filter (exportedClaim s) ?keys"
    let ?later = "List.map_filter (exportedClaim s) [batchStart + LOAD_BATCH_SIZE..<count]"
    let ?batch = "stringifyBatch stringify (getKeys s ?keys) ?keys ([], f)"
    have batch: "?batch = (linesFrom stringify f ?now, f \<and> ?now = [])"
      by (simp add: stringifyBatch_result map_filter_getKeys)
    have split: "List.map_filter (exportedClaim s) [batchStart..<count] = ?now @ ?later"
      by (subst upt_batch) (rule map_filter_append)
    have step: "loadBatches stringify s count batchStart (parts, f, reads)
        = loadBatches stringify s count (batchStart + LOAD_BATCH_SIZE)
            (if fst ?batch \<noteq> [] then parts @ [fst ?batch] else parts, snd ?batch, reads @ [?keys])"
      using True by (subst loadBatches.simps) (simp add: Let_def)
    have "concat (fst (loadBatches stringify s count batchStart (parts, f, reads)))
        = concat (if fst ?batch \<noteq> [] then parts @ [fst ?batch] else parts)
          @ linesFrom stringify (snd ?batch) ?later"
      unfolding step
      using "1.IH" [OF True refl refl refl refl] by simp
    also have "\<dots> = concat parts @ linesFrom stringify f ?now
                     @ linesFrom stringify (f \<and> ?now = []) ?later"
      unfolding batch by simp
    also have "\<dots> = concat parts
                     @ linesFrom stringify f (List.map_filter (exportedClaim s) [batchStart..<count])"
      unfolding split by (simp add: linesFrom_append)
    finally show ?thesis by simp
  qed
qed

lemma loadBatches_reads:
  "batchStart = k * 100 \<Longrightarrow>
   snd (snd (loadBatches stringify s count batchStart acc))
     = snd (snd acc) @ map (\<lambda>k. [k * 100..<min (k * 100 + 100) count]) [k..<(count + 99) div 100]"
proof (induction stringify s count batchStart acc arbitrary: k rule: loadBatches.induct)
  case (1 stringify s count batchStart parts f reads)
  note start = \<open>batchStart = k * 100\<close>
  show ?case
  proof (cases "batchStart < count")
    case False
    then have "(count + 99) div 100 \<le> k" using start by arith
    then show ?thesis using False by (simp add: loadBatches.simps)
  next
    case True
    then have lt: "k < (count + 99) div 100" using start by arith
    let ?keys = "[batchStart..<min (batchStart + LOAD_BATCH_SIZE) count]"
    let ?batch = "stringifyBatch stringify (getKeys s ?keys) ?keys ([], f)"
    have step: "loadBatches stringify s count batchStart (parts, f, reads)
        = loadBatches stringify s count (batchStart + LOAD_BATCH_SIZE)
            (if fst ?batch \<noteq> [] then parts @ [fst ?batch] else parts, snd ?batch, reads @ [?keys])"
      using True by (subst loadBatches.simps) (simp add: Let_def)
    have next_start: "batchStart + LOAD_BATCH_SIZE = Suc k * 100"
      using start by (simp add: LOAD_BATCH_SIZE_def)
    have keys: "?keys = [k * 100..<min (k * 100 + 100) count]"
      using start by (simp add: LOAD_BATCH_SIZE_def)
    have "snd (snd (loadBatches stringify s count batchStart (parts, f, reads)))
        = (reads @ [?keys])
          @ map (\<lambda>k. [k * 100..<min (k * 100 + 100) count]) [Suc k..<(count + 99) div 100]"
      unfolding step
      using "1.IH" [OF True refl refl refl refl next_start] by simp
    also have "\<dots> = reads @ map (\<lambda>k. [k * 100..<min (k * 100 + 100) count]) [k..<(count + 99) div 100]"
      unfolding keys using lt by (simp add: upt_conv_Cons)
    finally show ?thesis by simp
  qed
qed

lemma downloadFromStorage_text:
  assumes "exportJob s = Some job" and "0 < completedCount job"
  shows "downloadFromStorage stringify now isPartial s
     = Some (header @ claimLines stringify (storedRecords s (completedCount job))
             @ footer now isPartial (completedCount job) (total job),
             batches (completedCount job))"
proof -
  let ?c = "completedCount job"
  let ?loaded = "loadBatches stringify s ?c 0 ([header], True, [])"
  have body: "concat (fst ?loaded) = header @ claimLines stringify (storedRecords s ?c)"
    using loadBatches_text [of stringify s ?c 0 "([header], True, [])"]
    by (simp add: linesFrom_claimLines storedRecords_def)
  have reads: "snd (snd ?loaded) = batches ?c"
    using loadBatches_reads [of 0 0 stringify s ?c "([header], True, [])"]
    by (simp add: batches_def)
  show ?thesis
    using assms by (simp add: downloadFromStorage_def Let_def body reads)
qed

lemma concat_batches: "concat (batches c) = [0..<c]"
proof -
  have "concat (map (\<lambda>k. [k * 100..<min (k * 100 + 100) c]) [0..<n]) = [0..<min (n * 100) c]" for n
  proof (induction n)
    case 0
    show ?case by simp
  next
    case (Suc n)
    have "[0..<min (n * 100) c] @ [n * 100..<min (n * 100 + 100) c] = [0..<min (Suc n * 100) c]"
    proof (cases "n * 100 \<le> c")
      case True
      then have "min (n * 100) c = n * 100" by simp
      moreover have "[0..<n * 100] @ [n * 100..<min (n * 100 + 100) c] = [0..<min (n * 100 + 100) c]"
        using True by (metis le_add1 le_add_diff_inverse min.boundedI upt_add_eq_append zero_le)
      ultimately show ?thesis by (simp add: add.commute)
    next
      case False
      then show ?thesis by simp
    qed
    then show ?case using Suc by simp
  qed
  from this [of "(c + 99) div 100"] have "concat (batches c) = [0..<min ((c + 99) div 100 * 100) c]"
    by (simp add: batches_def)
  moreover have "c \<le> (c + 99) div 100 * 100" by arith
  ultimately show ?thesis by simp
qed

lemma storedRecords_all:
  assumes "\<forall>i<c. exportedClaim s i \<noteq> None"
  shows "map Some (storedRecords s c) = map (exportedClaim s) [0..<c]"
proof -
  have "(\<forall>x \<in> set xs. g x \<noteq> None) \<longrightarrow> map Some (List.map_filter g xs) = map g xs"
    for g :: "nat \<Rightarrow> 'b option" and xs
    by (induction xs) (auto simp: List.map_filter_simps)
  from this [of "[0..<c]" "exportedClaim s"] show ?thesis
    using assms by (simp add: storedRecords_def)
qed

lemma digitChar_cases:
  assumes "d < 10"
  shows "digit (digitChar d) \<and> of_char (digitChar d) = 48 + d
         \<and> (digitChar d = CHR ''0'' \<longrightarrow> d = 0)"
proof -
  have "d = 0 \<or> d = 1 \<or> d = 2 \<or> d = 3 \<or> d = 4 \<or> d = 5 \<or> d = 6 \<or> d = 7 \<or> d = 8 \<or> d = 9"
    using assms by arith
  then show ?thesis
    by (elim disjE) (simp_all add: digitChar_def digit_def)
qed

lemma decimal_digits: "list_all digit (decimal n)"
proof (induction n rule: decimal.induct)
  case (1 n)
  show ?case
  proof (cases "n < 10")
    case True
    then show ?thesis by (subst decimal.simps) (simp add: digitChar_cases)
  next
    case False
    have "n mod 10 < 10" by simp
    then have "digit (digitChar (n mod 10))" by (simp add: digitChar_cases)
    then show ?thesis using False "1.IH" by (subst decimal.simps) simp
  qed
qed

lemma decimal_nonempty: "decimal n \<noteq> []"
  by (subst decimal.simps) simp

lemma decimal_hd: "0 < n \<Longrightarrow> hd (decimal n) \<noteq> CHR ''0''"
proof (induction n rule: decimal.induct)
  case (1 n)
  show ?case
  proof (cases "n < 10")
    case True
    then show ?thesis using "1.prems" digitChar_cases [of n] by (subst decimal.simps) auto
  next
    case False
    then have "0 < n div 10" by arith
    then have "hd (decimal (n div 10)) \<noteq> CHR ''0''" using False "1.IH" by simp
    then show ?thesis using False decimal_nonempty [of "n div 10"]
      by (subst decimal.simps) simp
  qed
qed

lemma decimal_integerLit: "integerLit (decimal n)"
proof (cases "n = 0")
  case True
  then show ?thesis by (subst decimal.simps) (simp add: integerLit_def digitChar_def)
next
  case False
  then show ?thesis
    using decimal_hd [of n] decimal_nonempty [of n] decimal_digits [of n]
    by (simp add: integerLit_def)
qed

lemma decimal_numberLit: "numberLit (decimal n)"
proof -
  have nonempty: "decimal n \<noteq> []" by (rule decimal_nonempty)
  have digits: "list_all digit (decimal n)" by (rule decimal_digits)
  then have "digit (hd (decimal n))" using nonempty by (cases "decimal n") simp_all
  then have sign: "hd (decimal n) \<noteq> CHR ''-''" by (auto simp: digit_def)
  have tw: "takeWhile digit (decimal n) = decimal n"
    using digits by (simp add: list_all_iff)
  have dw: "dropWhile digit (decimal n) = []"
    using digits by (simp add: list_all_iff)
  show ?thesis
    using sign nonempty digits decimal_integerLit [of n]
    by (simp add: numberLit_def Let_def tw dw fractionLit_def exponentLit_def list_all_iff)
qed

lemma readDecimal_decimal: "readDecimal (decimal n) = n"
proof (induction n rule: decimal.induct)
  case (1 n)
  show ?case
  proof (cases "n < 10")
    case True
    then show ?thesis
      using digitChar_cases [of n] by (subst decimal.simps) (simp add: readDecimal_def)
  next
    case False
    have "n mod 10 < 10" by simp
    then have "of_char (digitChar (n mod 10)) = 48 + n mod 10"
      using digitChar_cases [of "n mod 10"] by blast
    moreover have "readDecimal (decimal (n div 10)) = n div 10"
      using False "1.IH" by simp
    ultimately show ?thesis
      using False by (subst decimal.simps) (simp add: readDecimal_def)
  qed
qed

lemma characters_plain: "list_all unescaped t \<Longrightarrow> characters t"
  by (induction t) (auto simp: unescaped_def)

lemma digit_unescaped: "digit c \<Longrightarrow> unescaped c"
  by (auto simp: digit_def unescaped_def DQUOTE_def BACKSLASH_def)

lemma decimal_unescaped: "list_all unescaped (decimal n)"
  using decimal_digits [of n] by (auto simp: list_all_iff digit_unescaped)

lemma note_characters:
  "characters (''Partial export: '' @ decimal c @ '' of '' @ decimal t @ '' claims (interrupted)'')"
  by (rule characters_plain)
    (simp add: decimal_unescaped unescaped_def DQUOTE_def BACKSLASH_def)

lemma memberI:
  assumes "ws w" and "characters k" and "jsonValue t v" and "ws w'"
  shows "jsonMember (w @ quoted k @ '': '' @ t @ w') (k, v)"
proof -
  have "jsonElement ('' '' @ t @ w') v"
    using assms by (intro element) (simp_all add: ws_def)
  then have "jsonMember (w @ quoted k @ [] @ '':'' @ ('' '' @ t @ w')) (k, v)"
    using assms by (intro member) (simp_all add: ws_def)
  then show ?thesis by simp
qed

lemma members_append:
  "jsonMembers t ms \<Longrightarrow> jsonMembers r ms' \<Longrightarrow> jsonMembers (t @ '','' @ r) (ms @ ms')"
proof (induction ms arbitrary: t)
  case Nil
  then show ?case by (auto elim: jsonMembers.cases)
next
  case (Cons m ms)
  from Cons.prems(1) show ?case
  proof (cases rule: jsonMembers.cases)
    case lastMember
    then show ?thesis
      using Cons.prems(2) jsonValue_jsonElement_jsonElements_jsonMember_jsonMembers.moreMembers [of t m r ms']
      by simp
  next
    case (moreMembers t1 r1)
    then have "jsonMembers (r1 @ '','' @ r) (ms @ ms')"
      using Cons.IH Cons.prems(2) by blast
    then have "jsonMembers (t1 @ '','' @ (r1 @ '','' @ r)) (m # (ms @ ms'))"
      using moreMembers by (intro jsonValue_jsonElement_jsonElements_jsonMember_jsonMembers.moreMembers)
    then show ?thesis using moreMembers by simp
  qed
qed

lemma claims_elements:
  assumes "\<forall>r \<in> set recs. jsonValue (stringify r) (jsonOf r)" and "recs \<noteq> []" and "ws w'"
  shows "ws w \<Longrightarrow> jsonElements (w @ claimLines stringify recs @ w') (map jsonOf recs)"
  using assms(1,2)
proof (induction recs arbitrary: w rule: induct_list012)
  case 1
  then show ?case by simp
next
  case (2 r)
  have "jsonElement ((w @ ''      '') @ stringify r @ w') (jsonOf r)"
    using 2 assms(3) by (intro element) (simp_all add: ws_def)
  then show ?case by (auto simp: claimLines_def intro: lastElement)
next
  case (3 r r' rs)
  have first: "jsonElement ((w @ ''      '') @ stringify r @ []) (jsonOf r)"
    using 3 by (intro element) (simp_all add: ws_def)
  have rest: "jsonElements ([LF] @ claimLines stringify (r' # rs) @ w') (map jsonOf (r' # rs))"
    using "3.IH"(2) [of "[LF]"] "3.prems" by (simp add: ws_def)
  have "jsonElements (((w @ ''      '') @ stringify r @ []) @ '','' @ ([LF] @ claimLines stringify (r' # rs) @ w'))
          (jsonOf r # map jsonOf (r' # rs))"
    using first rest by (rule moreElements)
  then show ?case by (simp add: claimLines_def)
qed

lemma claims_array:
  assumes "\<forall>r \<in> set recs. jsonValue (stringify r) (jsonOf r)"
  shows "jsonValue (''['' @ ([LF] @ claimLines stringify recs @ [LF] @ ''    '') @ '']'')
           (JArray (map jsonOf recs))"
proof (cases "recs = []")
  case True
  have "ws ([LF] @ [LF] @ ''    '')" by (simp add: ws_def)
  then have "jsonValue (''['' @ ([LF] @ [LF] @ ''    '') @ '']'') (JArray [])"
    by (rule emptyArray)
  then show ?thesis using True by (simp add: claimLines_def)
next
  case False
  have "ws [LF]" "ws ([LF] @ ''    '')" by (simp_all add: ws_def)
  then have "jsonElements ([LF] @ claimLines stringify recs @ [LF] @ ''    '') (map jsonOf recs)"
    using claims_elements [OF assms False] by blast
  then show ?thesis by (rule arrayValue)
qed

lemma plain_characters:
  "characters ''claimWizardData''" "characters ''claims''" "characters ''exportDate''"
  "characters ''exportMethod''" "characters ''chrome-extension''" "characters ''exportInfo''"
  "characters ''date''" "characters ''version''" "characters ''1.0.2''" "characters ''source''"
  "characters ''totalClaims''" "characters ''partial''" "characters ''originalTotal''"
  "characters ''note''"
  by (simp_all add: unescaped_def DQUOTE_def BACKSLASH_def)

lemma wizard_object:
  assumes "characters now" and "\<forall>r \<in> set recs. jsonValue (stringify r) (jsonOf r)"
  shows "jsonValue
           (''{'' @ (([LF] @ ''    '') @ quoted ''claims'' @ '': ''
                       @ (''['' @ ([LF] @ claimLines stringify recs @ [LF] @ ''    '') @ '']'') @ []
                     @ '','' @ ([LF] @ ''    '') @ quoted ''exportDate'' @ '': '' @ quoted now @ []
                     @ '','' @ ([LF] @ ''    '') @ quoted ''exportMethod'' @ '': ''
                       @ quoted ''chrome-extension'' @ ([LF] @ ''  ''))
            @ ''}'')
           (JObject [(''claims'', JArray (map jsonOf recs)),
                     (''exportDate'', JString now),
                     (''exportMethod'', JString ''chrome-extension'')])"
proof -
  have w4: "ws ([LF] @ ''    '')" and w2: "ws ([LF] @ ''  '')" and w0: "ws []"
    by (simp_all add: ws_def)
  have m1: "jsonMember (([LF] @ ''    '') @ quoted ''claims'' @ '': ''
      @ (''['' @ ([LF] @ claimLines stringify recs @ [LF] @ ''    '') @ '']'') @ [])
      (''claims'', JArray (map jsonOf recs))"
    using w4 plain_characters(2) claims_array [OF assms(2)] w0 by (rule memberI)
  have m2: "jsonMember (([LF] @ ''    '') @ quoted ''exportDate'' @ '': '' @ quoted now @ [])
      (''exportDate'', JString now)"
    using w4 plain_characters(3) stringValue [OF assms(1)] w0 by (rule memberI)
  have m3: "jsonMember (([LF] @ ''    '') @ quoted ''exportMethod'' @ '': ''
      @ quoted ''chrome-extension'' @ ([LF] @ ''  ''))
      (''exportMethod'', JString ''chrome-extension'')"
    using w4 plain_characters(4) stringValue [OF plain_characters(5)] w2 by (rule memberI)
  have "jsonMembers ((([LF] @ ''    '') @ quoted ''claims'' @ '': ''
      @ (''['' @ ([LF] @ claimLines stringify recs @ [LF] @ ''    '') @ '']'') @ [])
      @ '','' @ ((([LF] @ ''    '') @ quoted ''exportDate'' @ '': '' @ quoted now @ [])
      @ '','' @ (([LF] @ ''    '') @ quoted ''exportMethod'' @ '': ''
      @ quoted ''chrome-extension'' @ ([LF] @ ''  ''))))
      [(''claims'', JArray (map jsonOf recs)), (''exportDate'', JString now),
       (''exportMethod'', JString ''chrome-extension'')]"
    by (intro moreMembers lastMember m1 m2 m3)
  then have "jsonValue (''{'' @ ((([LF] @ ''    '') @ quoted ''claims'' @ '': ''
      @ (''['' @ ([LF] @ claimLines stringify recs @ [LF] @ ''    '') @ '']'') @ [])
      @ '','' @ ((([LF] @ ''    '') @ quoted ''exportDate'' @ '': '' @ quoted now @ [])
      @ '','' @ (([LF] @ ''    '') @ quoted ''exportMethod'' @ '': ''
      @ quoted ''chrome-extension'' @ ([LF] @ ''  '')))) @ ''}'')
      (JObject [(''claims'', JArray (map jsonOf recs)), (''exportDate'', JString now),
       (''exportMethod'', JString ''chrome-extension'')])"
    by (rule objectValue)
  then show ?thesis by simp
qed

lemma info_common:
  assumes "characters now"
  shows "jsonMembers
           (([LF] @ ''    '') @ quoted ''date'' @ '': '' @ quoted now @ []
            @ '','' @ ([LF] @ ''    '') @ quoted ''version'' @ '': '' @ quoted ''1.0.2'' @ []
            @ '','' @ ([LF] @ ''    '') @ quoted ''source'' @ '': '' @ quoted ''chrome-extension'' @ [])
           [(''date'', JString now), (''version'', JString ''1.0.2''),
            (''source'', JString ''chrome-extension'')]"
proof -
  have w4: "ws ([LF] @ ''    '')" and w0: "ws []"
    by (simp_all add: ws_def)
  have m1: "jsonMember (([LF] @ ''    '') @ quoted ''date'' @ '': '' @ quoted now @ [])
      (''date'', JString now)"
    using w4 plain_characters(7) stringValue [OF assms] w0 by (rule memberI)
  have m2: "jsonMember (([LF] @ ''    '') @ quoted ''version'' @ '': '' @ quoted ''1.0.2'' @ [])
      (''version'', JString ''1.0.2'')"
    using w4 plain_characters(8) stringValue [OF plain_characters(9)] w0 by (rule memberI)
  have m3: "jsonMember (([LF] @ ''    '') @ quoted ''source'' @ '': '' @ quoted ''chrome-extension'' @ [])
      (''source'', JString ''chrome-extension'')"
    using w4 plain_characters(10) stringValue [OF plain_characters(5)] w0 by (rule memberI)
  have "jsonMembers ((([LF] @ ''    '') @ quoted ''date'' @ '': '' @ quoted now @ [])
      @ '','' @ ((([LF] @ ''    '') @ quoted ''version'' @ '': '' @ quoted ''1.0.2'' @ [])
      @ '','' @ (([LF] @ ''    '') @ quoted ''source'' @ '': '' @ quoted ''chrome-extension'' @ [])))
      [(''date'', JString now), (''version'', JString ''1.0.2''),
       (''source'', JString ''chrome-extension'')]"
    by (intro moreMembers lastMember m1 m2 m3)
  then show ?thesis by simp
qed

lemma info_complete:
  "jsonMembers (([LF] @ ''    '') @ quoted ''totalClaims'' @ '': '' @ decimal c @ ([LF] @ ''  ''))
     [(''totalClaims'', JNumber (decimal c))]"
proof -
  have w4: "ws ([LF] @ ''    '')" and w2: "ws ([LF] @ ''  '')"
    by (simp_all add: ws_def)
  have "jsonMember (([LF] @ ''    '') @ quoted ''totalClaims'' @ '': '' @ decimal c @ ([LF] @ ''  ''))
      (''totalClaims'', JNumber (decimal c))"
    using w4 plain_characters(11) numberValue [OF decimal_numberLit] w2 by (rule memberI)
  then show ?thesis by (rule lastMember)
qed

lemma info_partial:
  "jsonMembers
     (([LF] @ ''    '') @ quoted ''totalClaims'' @ '': '' @ decimal c @ []
      @ '','' @ ([LF] @ ''    '') @ quoted ''partial'' @ '': '' @ ''true'' @ []
      @ '','' @ ([LF] @ ''    '') @ quoted ''originalTotal'' @ '': '' @ decimal t @ []
      @ '','' @ ([LF] @ ''    '') @ quoted ''note'' @ '': ''
        @ quoted (''Partial export: '' @ decimal c @ '' of '' @ decimal t @ '' claims (interrupted)'')
        @ ([LF] @ ''  ''))
     [(''totalClaims'', JNumber (decimal c)),
      (''partial'', JBool True),
      (''originalTotal'', JNumber (decimal t)),
      (''note'', JString (''Partial export: '' @ decimal c @ '' of '' @ decimal t
                          @ '' claims (interrupted)''))]"
proof -
  have w4: "ws ([LF] @ ''    '')" and w2: "ws ([LF] @ ''  '')" and w0: "ws []"
    by (simp_all add: ws_def)
  have m1: "jsonMember (([LF] @ ''    '') @ quoted ''totalClaims'' @ '': '' @ decimal c @ [])
      (''totalClaims'', JNumber (decimal c))"
    using w4 plain_characters(11) numberValue [OF decimal_numberLit] w0 by (rule memberI)
  have m2: "jsonMember (([LF] @ ''    '') @ quoted ''partial'' @ '': '' @ ''true'' @ [])
      (''partial'', JBool True)"
    using w4 plain_characters(12) trueValue w0 by (rule memberI)
  have m3: "jsonMember (([LF] @ ''    '') @ quoted ''originalTotal'' @ '': '' @ decimal t @ [])
      (''originalTotal'', JNumber (decimal t))"
    using w4 plain_characters(13) numberValue [OF decimal_numberLit] w0 by (rule memberI)
  have m4: "jsonMember (([LF] @ ''    '') @ quoted ''note'' @ '': ''
      @ quoted (''Partial export: '' @ decimal c @ '' of '' @ decimal t @ '' claims (interrupted)'')
      @ ([LF] @ ''  ''))
      (''note'', JString (''Partial export: '' @ decimal c @ '' of '' @ decimal t
                          @ '' claims (interrupted)''))"
    using w4 plain_characters(14) stringValue [OF note_characters] w2 by (rule memberI)
  have "jsonMembers ((([LF] @ ''    '') @ quoted ''totalClaims'' @ '': '' @ decimal c @ [])
      @ '','' @ ((([LF] @ ''    '') @ quoted ''partial'' @ '': '' @ ''true'' @ [])
      @ '','' @ ((([LF] @ ''    '') @ quoted ''originalTotal'' @ '': '' @ decimal t @ [])
      @ '','' @ (([LF] @ ''    '') @ quoted ''note'' @ '': ''
        @ quoted (''Partial export: '' @ decimal c @ '' of '' @ decimal t @ '' claims (interrupted)'')
        @ ([LF] @ ''  '')))))
     [(''totalClaims'', JNumber (decimal c)),
      (''partial'', JBool True),
      (''originalTotal'', JNumber (decimal t)),
      (''note'', JString (''Partial export: '' @ decimal c @ '' of '' @ decimal t
                          @ '' claims (interrupted)''))]"
    by (intro moreMembers lastMember m1 m2 m3 m4)
  then show ?thesis by simp
qed

lemma document_json:
  assumes "characters now" and "\<forall>r \<in> set recs. jsonValue (stringify r) (jsonOf r)"
  shows "jsonValue (header @ claimLines stringify recs @ footer now isPartial c t)
           (exportDocument (map jsonOf recs) now isPartial c t)"
proof -
  let ?wizard = "''{'' @ (([LF] @ ''    '') @ quoted ''claims'' @ '': ''
                       @ (''['' @ ([LF] @ claimLines stringify recs @ [LF] @ ''    '') @ '']'') @ []
                     @ '','' @ ([LF] @ ''    '') @ quoted ''exportDate'' @ '': '' @ quoted now @ []
                     @ '','' @ ([LF] @ ''    '') @ quoted ''exportMethod'' @ '': ''
                       @ quoted ''chrome-extension'' @ ([LF] @ ''  ''))
            @ ''}''"
  let ?common = "([LF] @ ''    '') @ quoted ''date'' @ '': '' @ quoted now @ []
            @ '','' @ ([LF] @ ''    '') @ quoted ''version'' @ '': '' @ quoted ''1.0.2'' @ []
            @ '','' @ ([LF] @ ''    '') @ quoted ''source'' @ '': '' @ quoted ''chrome-extension'' @ []"
  let ?tail = "if isPartial
      then ([LF] @ ''    '') @ quoted ''totalClaims'' @ '': '' @ decimal c @ []
        @ '','' @ ([LF] @ ''    '') @ quoted ''partial'' @ '': '' @ ''true'' @ []
        @ '','' @ ([LF] @ ''    '') @ quoted ''originalTotal'' @ '': '' @ decimal t @ []
        @ '','' @ ([LF] @ ''    '') @ quoted ''note'' @ '': ''
          @ quoted (''Partial export: '' @ decimal c @ '' of '' @ decimal t @ '' claims (interrupted)'')
          @ ([LF] @ ''  '')
      else ([LF] @ ''    '') @ quoted ''totalClaims'' @ '': '' @ decimal c @ ([LF] @ ''  '')"
  let ?tailValue = "[(''totalClaims'', JNumber (decimal c))]
      @ (if isPartial
         then [(''partial'', JBool True),
               (''originalTotal'', JNumber (decimal t)),
               (''note'', JString (''Partial export: '' @ decimal c @ '' of '' @ decimal t
                                   @ '' claims (interrupted)''))]
         else [])"
  have w2: "ws ([LF] @ ''  '')" and w0: "ws []" and w1: "ws [LF]"
    by (simp_all add: ws_def)
  have tail: "jsonMembers ?tail ?tailValue"
    using info_complete [of c] info_partial [of c t] by (cases isPartial) simp_all
  have "jsonMembers (?common @ '','' @ ?tail)
          ([(''date'', JString now), (''version'', JString ''1.0.2''),
            (''source'', JString ''chrome-extension'')] @ ?tailValue)"
    using info_common [OF assms(1)] tail by (rule members_append)
  then have info: "jsonValue (''{'' @ (?common @ '','' @ ?tail) @ ''}'')
          (JObject ([(''date'', JString now), (''version'', JString ''1.0.2''),
            (''source'', JString ''chrome-extension'')] @ ?tailValue))"
    by (rule objectValue)
  have t1: "jsonMember (([LF] @ ''  '') @ quoted ''claimWizardData'' @ '': '' @ ?wizard @ [])
      (''claimWizardData'',
       JObject [(''claims'', JArray (map jsonOf recs)),
                (''exportDate'', JString now),
                (''exportMethod'', JString ''chrome-extension'')])"
    using w2 plain_characters(1) wizard_object [OF assms] w0 by (rule memberI)
  have t2: "jsonMember (([LF] @ ''  '') @ quoted ''exportInfo'' @ '': ''
      @ (''{'' @ (?common @ '','' @ ?tail) @ ''}'') @ [LF])
      (''exportInfo'',
       JObject ([(''date'', JString now), (''version'', JString ''1.0.2''),
            (''source'', JString ''chrome-extension'')] @ ?tailValue))"
    using w2 plain_characters(6) info w1 by (rule memberI)
  have "jsonMembers ((([LF] @ ''  '') @ quoted ''claimWizardData'' @ '': '' @ ?wizard @ [])
      @ '','' @ (([LF] @ ''  '') @ quoted ''exportInfo'' @ '': ''
      @ (''{'' @ (?common @ '','' @ ?tail) @ ''}'') @ [LF]))
      [(''claimWizardData'',
         JObject [(''claims'', JArray (map jsonOf recs)),
                (''exportDate'', JString now),
                (''exportMethod'', JString ''chrome-extension'')]),
       (''exportInfo'',
         JObject ([(''date'', JString now), (''version'', JString ''1.0.2''),
            (''source'', JString ''chrome-extension'')] @ ?tailValue))]"
    by (intro moreMembers lastMember t1 t2)
  then have top: "jsonValue (''{'' @ ((([LF] @ ''  '') @ quoted ''claimWizardData'' @ '': '' @ ?wizard @ [])
      @ '','' @ (([LF] @ ''  '') @ quoted ''exportInfo'' @ '': ''
      @ (''{'' @ (?common @ '','' @ ?tail) @ ''}'') @ [LF])) @ ''}'')
      (JObject [(''claimWizardData'',
         JObject [(''claims'', JArray (map jsonOf recs)),
                (''exportDate'', JString now),
                (''exportMethod'', JString ''chrome-extension'')]),
       (''exportInfo'',
         JObject ([(''date'', JString now), (''version'', JString ''1.0.2''),
            (''source'', JString ''chrome-extension'')] @ ?tailValue))])"
    by (rule objectValue)
  have eq: "''{'' @ ((([LF] @ ''  '') @ quoted ''claimWizardData'' @ '': '' @ ?wizard @ [])
      @ '','' @ (([LF] @ ''  '') @ quoted ''exportInfo'' @ '': ''
      @ (''{'' @ (?common @ '','' @ ?tail) @ ''}'') @ [LF])) @ ''}''
      = header @ claimLines stringify recs @ footer now isPartial c t"
    by (cases isPartial) (simp_all add: header_def footer_def)
  show ?thesis
    using top unfolding eq exportDocument_def by simp
qed

lemma numberOnly_json:
  assumes "characters (recordNumber r)"
  shows "jsonValue (numberOnly r) (numberOnlyJson r)"
proof -
  have "ws []" by (simp add: ws_def)
  then have "jsonElement ([] @ quoted (recordNumber r) @ []) (JString (recordNumber r))"
    using assms by (intro element stringValue)
  then have "jsonMember ([] @ quoted ''fileNumber'' @ [] @ '':'' @ ([] @ quoted (recordNumber r) @ []))
      (''fileNumber'', JString (recordNumber r))"
    by (intro member) (simp_all add: ws_def unescaped_def DQUOTE_def BACKSLASH_def)
  then have "jsonValue (''{'' @ ([] @ quoted ''fileNumber'' @ [] @ '':'' @ ([] @ quoted (recordNumber r) @ [])) @ ''}'')
      (JObject [(''fileNumber'', JString (recordNumber r))])"
    by (intro objectValue lastMember)
  then show ?thesis by (simp add: numberOnly_def numberOnlyJson_def)
qed

text \<open>
  Claim C8, as the code has it. Without a job, and with a job whose \<open>completedCount\<close> is 0,
  nothing is assembled. With \<open>completedCount = c > 0\<close> the text is the opening, the records
  present at the indices \<open>0..c-1\<close> in ascending order, each written by \<open>stringify\<close> behind six
  spaces and separated by a comma and a line feed, and the footer with \<open>totalClaims = c\<close>,
  and with \<open>partial\<close>, \<open>originalTotal = total\<close> and the note when \<open>isPartial\<close>. The keys are read
  in the batches \<open>[0..99]\<close>, \<open>[100..199]\<close>, ... up to \<open>c - 1\<close>, which together are the indices
  \<open>0..c-1\<close>. When every index below \<open>c\<close> has its record, the records written are exactly
  those of the indices \<open>0..c-1\<close>. When the text of the date is the inside of a JSON string
  and \<open>stringify\<close> writes every record as a JSON value, the text is a JSON value of the
  grammar: the object of \<open>exportDocument\<close> over the values of the records. The decimal
  digits written for \<open>c\<close> and \<open>total\<close> read back as these numbers.
\<close>

theorem downloadFromStorage_document:
  "(exportJob s = None \<longrightarrow> downloadFromStorage stringify now isPartial s = None)
   \<and> (exportJob s = Some job \<and> completedCount job = 0 \<longrightarrow>
        downloadFromStorage stringify now isPartial s = None)
   \<and> (exportJob s = Some job \<and> 0 < completedCount job \<longrightarrow>
        downloadFromStorage stringify now isPartial s
          = Some (header @ claimLines stringify (storedRecords s (completedCount job))
                  @ footer now isPartial (completedCount job) (total job),
                  batches (completedCount job)))
   \<and> concat (batches (completedCount job)) = [0..<completedCount job]
   \<and> batches 250 = [[0..<100], [100..<200], [200..<250]]
   \<and> ((\<forall>i<completedCount job. exportedClaim s i \<noteq> None) \<longrightarrow>
        map Some (storedRecords s (completedCount job))
          = map (exportedClaim s) [0..<completedCount job])
   \<and> (characters now
        \<and> (\<forall>r \<in> set (storedRecords s (completedCount job)). jsonValue (stringify r) (jsonOf r)) \<longrightarrow>
        jsonValue (header @ claimLines stringify (storedRecords s (completedCount job))
                   @ footer now isPartial (completedCount job) (total job))
          (exportDocument (map jsonOf (storedRecords s (completedCount job))) now isPartial
             (completedCount job) (total job)))
   \<and> readDecimal (decimal (completedCount job)) = completedCount job
   \<and> readDecimal (decimal (total job)) = total job"
proof (intro conjI impI)
  show "downloadFromStorage stringify now isPartial s = None" if "exportJob s = None"
    using that by (simp add: downloadFromStorage_def)
  show "downloadFromStorage stringify now isPartial s = None"
    if "exportJob s = Some job \<and> completedCount job = 0"
    using that by (simp add: downloadFromStorage_def)
  show "downloadFromStorage stringify now isPartial s
          = Some (header @ claimLines stringify (storedRecords s (completedCount job))
                  @ footer now isPartial (completedCount job) (total job),
                  batches (completedCount job))"
    if "exportJob s = Some job \<and> 0 < completedCount job"
    using that downloadFromStorage_text [of s job stringify now isPartial] by blast
  show "concat (batches (completedCount job)) = [0..<completedCount job]"
    by (rule concat_batches)
  show "batches 250 = [[0..<100], [100..<200], [200..<250]]"
    by (simp add: batches_def upt_conv_Cons)
  show "map Some (storedRecords s (completedCount job))
          = map (exportedClaim s) [0..<completedCount job]"
    if "\<forall>i<completedCount job. exportedClaim s i \<noteq> None"
    using that by (rule storedRecords_all)
  show "jsonValue (header @ claimLines stringify (storedRecords s (completedCount job))
                   @ footer now isPartial (completedCount job) (total job))
          (exportDocument (map jsonOf (storedRecords s (completedCount job))) now isPartial
             (completedCount job) (total job))"
    if "characters now
        \<and> (\<forall>r \<in> set (storedRecords s (completedCount job)). jsonValue (stringify r) (jsonOf r))"
    using that document_json [of now "storedRecords s (completedCount job)" stringify jsonOf] by blast
  show "readDecimal (decimal (completedCount job)) = completedCount job"
    "readDecimal (decimal (total job)) = total job"
    by (rule readDecimal_decimal)+
qed

theorem downloadFromStorage_document_witness:
  "downloadFromStorage numberOnly now1 True (cleanStorage :: unit storage) = None
   \<and> exportJob store2of5 = Some job2of5 \<and> completedCount job2of5 = 2 \<and> total job2of5 = 5
   \<and> exportedClaim store2of5 2 = Some (found ''C3'')
   \<and> storedRecords store2of5 2
       = [found ''A1'', FetchError \<lparr>fileNumber = ''B2'', rowIndex = 2\<rparr> (SearchFailed 500)]
   \<and> map (exportedClaim store2of5) [0..<2]
       = [Some (found ''A1''),
          Some (FetchError \<lparr>fileNumber = ''B2'', rowIndex = 2\<rparr> (SearchFailed 500))]
   \<and> downloadFromStorage numberOnly now1 True store2of5 = Some (partial2of5, [[0, 1]])
   \<and> jsonValue partial2of5
        (JObject
           [(''claimWizardData'',
               JObject [(''claims'', JArray [JObject [(''fileNumber'', JString ''A1'')],
                                             JObject [(''fileNumber'', JString ''B2'')]]),
                        (''exportDate'', JString ''2026-01-15T10:30:00.000Z''),
                        (''exportMethod'', JString ''chrome-extension'')]),
            (''exportInfo'',
               JObject [(''date'', JString ''2026-01-15T10:30:00.000Z''),
                        (''version'', JString ''1.0.2''),
                        (''source'', JString ''chrome-extension''),
                        (''totalClaims'', JNumber ''2''),
                        (''partial'', JBool True),
                        (''originalTotal'', JNumber ''5''),
                        (''note'', JString ''Partial export: 2 of 5 claims (interrupted)'')])])
   \<and> readDecimal ''2'' = 2 \<and> readDecimal ''5'' = 5
   \<and> map_option (map length \<circ> snd) (downloadFromStorage numberOnly now1 False store250)
       = Some [100, 100, 50]
   \<and> map_option (concat \<circ> snd) (downloadFromStorage numberOnly now1 False store250)
       = Some [0..<250]"
proof -
  have none: "downloadFromStorage numberOnly now1 True (cleanStorage :: unit storage) = None"
    using downloadFromStorage_document [of "cleanStorage :: unit storage" numberOnly now1 True]
    by (simp add: cleanStorage_def)
  note inst = downloadFromStorage_document
    [of store2of5 numberOnly now1 True job2of5 numberOnlyJson]
  have job: "exportJob store2of5 = Some job2of5" by (simp add: store2of5_def)
  have cc: "completedCount job2of5 = 2" and tot: "total job2of5 = 5"
    by (simp_all add: job2of5_def)
  have key2: "exportedClaim store2of5 2 = Some (found ''C3'')" by (simp add: store2of5_def)
  have upt2: "[0..<2] = [0, Suc 0]" by (simp add: upt_conv_Cons)
  have recs: "storedRecords store2of5 2
       = [found ''A1'', FetchError \<lparr>fileNumber = ''B2'', rowIndex = 2\<rparr> (SearchFailed 500)]"
    by (simp add: storedRecords_def store2of5_def upt2 List.map_filter_simps)
  have present: "\<forall>i<completedCount job2of5. exportedClaim store2of5 i \<noteq> None"
    unfolding cc by (simp add: store2of5_def less_Suc_eq numeral_2_eq_2)
  have keys: "map Some (storedRecords store2of5 (completedCount job2of5))
      = map (exportedClaim store2of5) [0..<completedCount job2of5]"
    using inst present by blast
  have shown: "map (exportedClaim store2of5) [0..<2]
       = [Some (found ''A1''),
          Some (FetchError \<lparr>fileNumber = ''B2'', rowIndex = 2\<rparr> (SearchFailed 500))]"
    using keys unfolding cc recs by simp
  have written: "header @ claimLines numberOnly (storedRecords store2of5 2) @ footer now1 True 2 5
      = partial2of5"
    by code_simp
  have batch: "batches 2 = [[0, 1]]"
    by code_simp
  have "downloadFromStorage numberOnly now1 True store2of5
      = Some (header @ claimLines numberOnly (storedRecords store2of5 (completedCount job2of5))
              @ footer now1 True (completedCount job2of5) (total job2of5),
              batches (completedCount job2of5))"
    using inst job cc by simp
  then have run: "downloadFromStorage numberOnly now1 True store2of5 = Some (partial2of5, [[0, 1]])"
    unfolding cc tot written batch .
  have date: "characters now1" by code_simp
  have n1: "characters (recordNumber (found ''A1'' :: unit claimData))"
    and n2: "characters (recordNumber
       (FetchError \<lparr>fileNumber = ''B2'', rowIndex = 2\<rparr> (SearchFailed 500) :: unit claimData))"
    by code_simp+
  have vals: "\<forall>r \<in> set (storedRecords store2of5 (completedCount job2of5)).
      jsonValue (numberOnly r) (numberOnlyJson r)"
    unfolding cc recs using numberOnly_json [OF n1] numberOnly_json [OF n2] by simp
  have "jsonValue (header @ claimLines numberOnly (storedRecords store2of5 (completedCount job2of5))
                   @ footer now1 True (completedCount job2of5) (total job2of5))
          (exportDocument (map numberOnlyJson (storedRecords store2of5 (completedCount job2of5)))
             now1 True (completedCount job2of5) (total job2of5))"
    using inst date vals by blast
  then have "jsonValue partial2of5
      (exportDocument (map numberOnlyJson (storedRecords store2of5 2)) now1 True 2 5)"
    unfolding cc tot written .
  moreover have "exportDocument (map numberOnlyJson (storedRecords store2of5 2)) now1 True 2 5
      = JObject
           [(''claimWizardData'',
               JObject [(''claims'', JArray [JObject [(''fileNumber'', JString ''A1'')],
                                             JObject [(''fileNumber'', JString ''B2'')]]),
                        (''exportDate'', JString ''2026-01-15T10:30:00.000Z''),
                        (''exportMethod'', JString ''chrome-extension'')]),
            (''exportInfo'',
               JObject [(''date'', JString ''2026-01-15T10:30:00.000Z''),
                        (''version'', JString ''1.0.2''),
                        (''source'', JString ''chrome-extension''),
                        (''totalClaims'', JNumber ''2''),
                        (''partial'', JBool True),
                        (''originalTotal'', JNumber ''5''),
                        (''note'', JString ''Partial export: 2 of 5 claims (interrupted)'')])]"
    by code_simp
  ultimately have valid: "jsonValue partial2of5
        (JObject
           [(''claimWizardData'',
               JObject [(''claims'', JArray [JObject [(''fileNumber'', JString ''A1'')],
                                             JObject [(''fileNumber'', JString ''B2'')]]),
                        (''exportDate'', JString ''2026-01-15T10:30:00.000Z''),
                        (''exportMethod'', JString ''chrome-extension'')]),
            (''exportInfo'',
               JObject [(''date'', JString ''2026-01-15T10:30:00.000Z''),
                        (''version'', JString ''1.0.2''),
                        (''source'', JString ''chrome-extension''),
                        (''totalClaims'', JNumber ''2''),
                        (''partial'', JBool True),
                        (''originalTotal'', JNumber ''5''),
                        (''note'', JString ''Partial export: 2 of 5 claims (interrupted)'')])])"
    by simp
  have d2: "decimal 2 = ''2''" and d5: "decimal 5 = ''5''" by code_simp+
  have read: "readDecimal ''2'' = 2" "readDecimal ''5'' = 5"
    using inst unfolding cc tot d2 d5 by blast+
  note inst250 = downloadFromStorage_document [of store250 numberOnly now1 False job250]
  have job250: "exportJob store250 = Some job250" by (simp add: store250_def)
  have cc250: "completedCount job250 = 250" by (simp add: job250_def)
  have run250: "downloadFromStorage numberOnly now1 False store250
      = Some (header @ claimLines numberOnly (storedRecords store250 250)
              @ footer now1 False 250 (total job250), batches 250)"
    using inst250 job250 unfolding cc250 by simp
  have b250: "batches 250 = [[0..<100], [100..<200], [200..<250]]"
    using inst250 by blast
  have c250: "concat (batches 250) = [0..<250]"
    using inst250 unfolding cc250 by blast
  have lengths: "map_option (map length \<circ> snd) (downloadFromStorage numberOnly now1 False store250)
       = Some [100, 100, 50]"
    unfolding run250 by (simp add: b250)
  have all: "map_option (concat \<circ> snd) (downloadFromStorage numberOnly now1 False store250)
       = Some [0..<250]"
    unfolding run250 using c250 by simp
  show ?thesis
    using none job cc tot key2 recs shown run valid read lengths all by (intro conjI)
qed

text \<open>
  Claim C8 as stated gives a document for every job. For the job of an export that has
  not counted a claim yet (\<open>completedCount = 0\<close>, no per-claim key stored, which is the
  checkpoint invariant with the empty set of keys) the popup alerts
  \<open>No saved claims found.\<close> and assembles nothing.
\<close>

theorem downloadFromStorage_empty_counterexample:
  "exportJob store0of3 = Some job3 \<and> completedCount job3 = 0 \<and> total job3 = 3
   \<and> dom (exportedClaim store0of3) = {..<completedCount job3}
   \<and> downloadFromStorage numberOnly now1 False store0of3 = None
   \<and> downloadFromStorage numberOnly now1 True store0of3 = None"
  by (simp add: store0of3_def cleanStorage_def job3_def downloadFromStorage_def)

end
